theory Spec2Isabelle
  imports Main
begin

section \<open>Strings and helpers (utils/helpers.ts)\<close>

text \<open>
  JavaScript strings are modelled as \<^typ>\<open>string\<close>, one \<^typ>\<open>char\<close> per code unit
  below 256. Of the ECMAScript white space and line terminator code points, those in
  that range are TAB, LF, VT, FF, CR, SPACE and NBSP; \<open>String.prototype.trim\<close> and
  the regular expression class \<open>\s\<close> use the same set.
\<close>

definition isWhiteSpace :: "char \<Rightarrow> bool" where
  "isWhiteSpace c \<longleftrightarrow>
     c \<in> set [CHR 0x09, CHR 0x0A, CHR 0x0B, CHR 0x0C, CHR 0x0D, CHR 0x20, CHR 0xA0]"

definition trim :: "string \<Rightarrow> string" where
  "trim s = rev (dropWhile isWhiteSpace (rev (dropWhile isWhiteSpace s)))"

text \<open>
  \<^verbatim>\<open>cleanString(str) { return str?.trim() || ''; }\<close>:
  \<open>null\<close> and \<open>undefined\<close> are \<^term>\<open>None\<close>.
\<close>

definition cleanString :: "string option \<Rightarrow> string" where
  "cleanString str = (case str of None \<Rightarrow> [] | Some s \<Rightarrow> trim s)"

text \<open>
  \<^verbatim>\<open>isValidEmail\<close> tests \<^verbatim>\<open>/^[^\s@]+@[^\s@]+\.[^\s@]+$/\<close>. A match has exactly
  one \<open>@\<close>, no white space, a non-empty local part, and after the \<open>@\<close> a dot that is
  neither the first nor the last character.
\<close>

definition emailChar :: "char \<Rightarrow> bool" where
  "emailChar c \<longleftrightarrow> \<not> isWhiteSpace c \<and> c \<noteq> CHR ''@''"

definition isValidEmail :: "string \<Rightarrow> bool" where
  "isValidEmail email =
     (let a = takeWhile (\<lambda>c. c \<noteq> CHR ''@'') email;
          r = drop (Suc (length a)) email
      in a \<noteq> [] \<and> length a < length email \<and> list_all emailChar a \<and> list_all emailChar r
         \<and> CHR ''.'' \<in> set (butlast (tl r)))"

text \<open>
  \<^verbatim>\<open>isValidUuid\<close> tests
  \<^verbatim>\<open>/^[0-9a-f]{8}-[0-9a-f]{4}-[1-5][0-9a-f]{3}-[89ab][0-9a-f]{3}-[0-9a-f]{12}$/i\<close>:
  thirty-six characters, each in the class of its position.
\<close>

definition hexChar :: "char \<Rightarrow> bool" where
  "hexChar c \<longleftrightarrow> c \<in> set ''0123456789abcdefABCDEF''"

definition uuidPattern :: "(char \<Rightarrow> bool) list" where
  "uuidPattern =
     replicate 8 hexChar @ [\<lambda>c. c = CHR ''-''] @
     replicate 4 hexChar @ [\<lambda>c. c = CHR ''-''] @
     [\<lambda>c. c \<in> set ''12345''] @ replicate 3 hexChar @ [\<lambda>c. c = CHR ''-''] @
     [\<lambda>c. c \<in> set ''89abAB''] @ replicate 3 hexChar @ [\<lambda>c. c = CHR ''-''] @
     replicate 12 hexChar"

definition isValidUuid :: "string \<Rightarrow> bool" where
  "isValidUuid str = list_all2 (\<lambda>p c. p c) uuidPattern str"

text \<open>
  Thrown values: \<^verbatim>\<open>AppError(message, statusCode)\<close> of types/common.ts, and every other
  \<^verbatim>\<open>Error\<close> (a driver or transport error) with its message.
  \<^verbatim>\<open>formatError\<close> returns the message of either.
\<close>

datatype err = AppError string nat | Error string

fun formatError :: "err \<Rightarrow> string" where
  "formatError (AppError m c) = m"
| "formatError (Error m) = m"

fun isAppError :: "err \<Rightarrow> bool" where
  "isAppError (AppError m c) = True"
| "isAppError (Error m) = False"

section \<open>Entities (types/schemas.ts) and the system state\<close>

record Company =
  co_id :: string
  co_hubspot_id :: string
  co_name :: string
  co_domain :: string
  co_created_at :: string

record CreateCompany =
  cc_hubspot_id :: string
  cc_name :: string
  cc_domain :: string

text \<open>\<^verbatim>\<open>UpdateCompany = CreateCompanySchema.partial()\<close>: every field may be undefined.\<close>

record UpdateCompany =
  uc_hubspot_id :: "string option"
  uc_name :: "string option"
  uc_domain :: "string option"

text \<open>
  A contact, as an object and as a row of \<open>contacts\<close>: \<^term>\<open>None\<close> is
  \<open>undefined\<close> in an object and \<open>NULL\<close> in a row.
\<close>

record Contact =
  ct_id :: string
  ct_hubspot_id :: string
  ct_firstname :: "string option"
  ct_lastname :: "string option"
  ct_email :: string
  ct_company_id :: "string option"
  ct_created_at :: string

record CreateContact =
  cn_hubspot_id :: string
  cn_firstname :: "string option"
  cn_lastname :: "string option"
  cn_email :: string
  cn_company_id :: "string option"

record UpdateContact =
  un_hubspot_id :: "string option"
  un_firstname :: "string option"
  un_lastname :: "string option"
  un_email :: "string option"
  un_company_id :: "string option"

text \<open>\<^verbatim>\<open>EtlSyncStatus\<close> of types/hubspot.ts.\<close>

record EtlSyncStatus =
  isRunning :: bool
  startedAt :: "string option"
  completedAt :: "string option"
  contactsProcessed :: nat
  companiesProcessed :: nat
  errors :: "string list"

text \<open>
  The state the pipeline reads and writes: the two tables of database/connection.ts (rows
  in insertion order), the status field of \<^verbatim>\<open>EtlService\<close>, the lines given to
  \<^verbatim>\<open>logger.warn\<close>, and how many identifiers and timestamps have been drawn so far.
  What \<^verbatim>\<open>uuidv4()\<close> and \<^verbatim>\<open>new Date().toISOString()\<close> return at each draw is given
  by the environment.
\<close>

record sys =
  companies :: "Company list"
  contacts :: "Contact list"
  syncStatus :: EtlSyncStatus
  warnings :: "string list"
  idctr :: nat
  clock :: nat

record env =
  gen_id :: "nat \<Rightarrow> string"
  now :: "nat \<Rightarrow> string"

definition generateId :: "env \<Rightarrow> sys \<Rightarrow> string \<times> sys" where
  "generateId e s = (gen_id e (idctr s), s\<lparr>idctr := Suc (idctr s)\<rparr>)"

definition getCurrentTimestamp :: "env \<Rightarrow> sys \<Rightarrow> string \<times> sys" where
  "getCurrentTimestamp e s = (now e (clock s), s\<lparr>clock := Suc (clock s)\<rparr>)"

text \<open>
  A constraint of the schema that a statement violates makes \<^verbatim>\<open>db.run\<close> reject with
  the driver's error.
\<close>

definition sqliteConstraint :: err where
  "sqliteConstraint = Error ''SQLITE_CONSTRAINT''"

section \<open>CompanyRepository\<close>

text \<open>
  \<^verbatim>\<open>companies(id TEXT PRIMARY KEY, hubspot_id TEXT UNIQUE NOT NULL, name, domain,
  created_at)\<close>. A \<open>SELECT ... WHERE col = ?\<close> through \<^verbatim>\<open>db.get\<close> yields the first
  matching row.
\<close>

definition CompanyRepository_findById :: "sys \<Rightarrow> string \<Rightarrow> Company option" where
  "CompanyRepository_findById s i = find (\<lambda>c. co_id c = i) (companies s)"

definition CompanyRepository_findByHubspotId :: "sys \<Rightarrow> string \<Rightarrow> Company option" where
  "CompanyRepository_findByHubspotId s h = find (\<lambda>c. co_hubspot_id c = h) (companies s)"

definition insertCompany :: "Company list \<Rightarrow> Company \<Rightarrow> err + Company list" where
  "insertCompany cs c =
     (if co_id c \<in> set (map co_id cs) \<or> co_hubspot_id c \<in> set (map co_hubspot_id cs)
      then Inl sqliteConstraint else Inr (cs @ [c]))"

definition CompanyRepository_create :: "env \<Rightarrow> CreateCompany \<Rightarrow> sys \<Rightarrow> (err + Company) \<times> sys" where
  "CompanyRepository_create e companyData s =
     (let (i, s1) = generateId e s;
          (createdAt, s2) = getCurrentTimestamp e s1;
          company = \<lparr>co_id = i, co_hubspot_id = cc_hubspot_id companyData,
                     co_name = cc_name companyData, co_domain = cc_domain companyData,
                     co_created_at = createdAt\<rparr>
      in case insertCompany (companies s2) company of
           Inl er \<Rightarrow> (Inl er, s2)
         | Inr cs \<Rightarrow> (Inr company, s2\<lparr>companies := cs\<rparr>))"

text \<open>
  \<open>UPDATE companies SET ... WHERE id = ?\<close> with one assignment per field of
  \<open>updates\<close> that is not undefined.
\<close>

definition setCompanyFields :: "UpdateCompany \<Rightarrow> Company \<Rightarrow> Company" where
  "setCompanyFields u c =
     c\<lparr>co_hubspot_id := (case uc_hubspot_id u of None \<Rightarrow> co_hubspot_id c | Some h \<Rightarrow> h),
       co_name := (case uc_name u of None \<Rightarrow> co_name c | Some n \<Rightarrow> n),
       co_domain := (case uc_domain u of None \<Rightarrow> co_domain c | Some d \<Rightarrow> d)\<rparr>"

definition updateCompanyRows :: "Company list \<Rightarrow> string \<Rightarrow> UpdateCompany \<Rightarrow> err + Company list" where
  "updateCompanyRows cs i u =
     (if (case uc_hubspot_id u of
            None \<Rightarrow> False
          | Some h \<Rightarrow> (\<exists>c \<in> set cs. co_id c = i)
                      \<and> (\<exists>c' \<in> set cs. co_id c' \<noteq> i \<and> co_hubspot_id c' = h))
      then Inl sqliteConstraint
      else Inr (map (\<lambda>c. if co_id c = i then setCompanyFields u c else c) cs))"

definition CompanyRepository_update ::
  "string \<Rightarrow> UpdateCompany \<Rightarrow> sys \<Rightarrow> (err + Company option) \<times> sys" where
  "CompanyRepository_update i updates s =
     (case CompanyRepository_findById s i of
        None \<Rightarrow> (Inr None, s)
      | Some existingCompany \<Rightarrow>
          if uc_hubspot_id updates = None \<and> uc_name updates = None \<and> uc_domain updates = None
          then (Inr (Some existingCompany), s)
          else (case updateCompanyRows (companies s) i updates of
                  Inl er \<Rightarrow> (Inl er, s)
                | Inr cs \<Rightarrow>
                    (let s' = s\<lparr>companies := cs\<rparr>
                     in (Inr (CompanyRepository_findById s' i), s'))))"

text \<open>
  \<^verbatim>\<open>upsertByHubspotId\<close> passes the whole \<^verbatim>\<open>CreateCompany\<close> as the updates, so all
  three fields are defined. \<^verbatim>\<open>return updatedCompany!\<close> returns what \<^verbatim>\<open>update\<close>
  returned.
\<close>

definition asUpdateCompany :: "CreateCompany \<Rightarrow> UpdateCompany" where
  "asUpdateCompany d =
     \<lparr>uc_hubspot_id = Some (cc_hubspot_id d), uc_name = Some (cc_name d),
      uc_domain = Some (cc_domain d)\<rparr>"

definition CompanyRepository_upsertByHubspotId ::
  "env \<Rightarrow> CreateCompany \<Rightarrow> sys \<Rightarrow> (err + Company option) \<times> sys" where
  "CompanyRepository_upsertByHubspotId e companyData s =
     (case CompanyRepository_findByHubspotId s (cc_hubspot_id companyData) of
        Some existingCompany \<Rightarrow>
          CompanyRepository_update (co_id existingCompany) (asUpdateCompany companyData) s
      | None \<Rightarrow>
          (case CompanyRepository_create e companyData s of
             (Inl er, s') \<Rightarrow> (Inl er, s')
           | (Inr company, s') \<Rightarrow> (Inr (Some company), s')))"

section \<open>ContactRepository\<close>

text \<open>
  \<^verbatim>\<open>contacts(id TEXT PRIMARY KEY, hubspot_id TEXT UNIQUE NOT NULL, firstname, lastname,
  email TEXT UNIQUE NOT NULL, company_id, created_at, FOREIGN KEY (company_id) REFERENCES
  companies (id))\<close>, with \<open>PRAGMA foreign_keys = ON\<close>.
\<close>

definition ContactRepository_findById :: "sys \<Rightarrow> string \<Rightarrow> Contact option" where
  "ContactRepository_findById s i = find (\<lambda>c. ct_id c = i) (contacts s)"

definition ContactRepository_findByHubspotId :: "sys \<Rightarrow> string \<Rightarrow> Contact option" where
  "ContactRepository_findByHubspotId s h = find (\<lambda>c. ct_hubspot_id c = h) (contacts s)"

definition ContactRepository_findByEmail :: "sys \<Rightarrow> string \<Rightarrow> Contact option" where
  "ContactRepository_findByEmail s m = find (\<lambda>c. ct_email c = m) (contacts s)"

text \<open>\<^verbatim>\<open>x || null\<close> on an optional string: undefined and the empty string become NULL.\<close>

definition orNull :: "string option \<Rightarrow> string option" where
  "orNull x = (case x of None \<Rightarrow> None | Some v \<Rightarrow> if v = [] then None else Some v)"

definition foreignKeyOk :: "Company list \<Rightarrow> string option \<Rightarrow> bool" where
  "foreignKeyOk cs k = (case k of None \<Rightarrow> True | Some i \<Rightarrow> i \<in> set (map co_id cs))"

definition insertContact :: "Company list \<Rightarrow> Contact list \<Rightarrow> Contact \<Rightarrow> err + Contact list" where
  "insertContact cs ts c =
     (if ct_id c \<in> set (map ct_id ts) \<or> ct_hubspot_id c \<in> set (map ct_hubspot_id ts)
         \<or> ct_email c \<in> set (map ct_email ts) \<or> \<not> foreignKeyOk cs (ct_company_id c)
      then Inl sqliteConstraint else Inr (ts @ [c]))"

definition ContactRepository_create :: "env \<Rightarrow> CreateContact \<Rightarrow> sys \<Rightarrow> (err + Contact) \<times> sys" where
  "ContactRepository_create e contactData s =
     (let (i, s1) = generateId e s;
          (createdAt, s2) = getCurrentTimestamp e s1;
          contact = \<lparr>ct_id = i, ct_hubspot_id = cn_hubspot_id contactData,
                     ct_firstname = cn_firstname contactData,
                     ct_lastname = cn_lastname contactData, ct_email = cn_email contactData,
                     ct_company_id = cn_company_id contactData, ct_created_at = createdAt\<rparr>;
          row = contact\<lparr>ct_firstname := orNull (ct_firstname contact),
                        ct_lastname := orNull (ct_lastname contact),
                        ct_company_id := orNull (ct_company_id contact)\<rparr>
      in case insertContact (companies s2) (contacts s2) row of
           Inl er \<Rightarrow> (Inl er, s2)
         | Inr ts \<Rightarrow> (Inr contact, s2\<lparr>contacts := ts\<rparr>))"

definition setContactFields :: "UpdateContact \<Rightarrow> Contact \<Rightarrow> Contact" where
  "setContactFields u c =
     c\<lparr>ct_hubspot_id := (case un_hubspot_id u of None \<Rightarrow> ct_hubspot_id c | Some h \<Rightarrow> h),
       ct_firstname := (case un_firstname u of None \<Rightarrow> ct_firstname c | Some f \<Rightarrow> Some f),
       ct_lastname := (case un_lastname u of None \<Rightarrow> ct_lastname c | Some l \<Rightarrow> Some l),
       ct_email := (case un_email u of None \<Rightarrow> ct_email c | Some m \<Rightarrow> m),
       ct_company_id := (case un_company_id u of None \<Rightarrow> ct_company_id c | Some k \<Rightarrow> Some k)\<rparr>"

definition updateContactRows ::
  "Company list \<Rightarrow> Contact list \<Rightarrow> string \<Rightarrow> UpdateContact \<Rightarrow> err + Contact list" where
  "updateContactRows cs ts i u =
     (if (\<exists>c \<in> set ts. ct_id c = i)
         \<and> ((case un_hubspot_id u of None \<Rightarrow> False
              | Some h \<Rightarrow> (\<exists>c' \<in> set ts. ct_id c' \<noteq> i \<and> ct_hubspot_id c' = h))
            \<or> (case un_email u of None \<Rightarrow> False
              | Some m \<Rightarrow> (\<exists>c' \<in> set ts. ct_id c' \<noteq> i \<and> ct_email c' = m))
            \<or> (case un_company_id u of None \<Rightarrow> False
              | Some k \<Rightarrow> \<not> foreignKeyOk cs (Some k)))
      then Inl sqliteConstraint
      else Inr (map (\<lambda>c. if ct_id c = i then setContactFields u c else c) ts))"

definition ContactRepository_update ::
  "string \<Rightarrow> UpdateContact \<Rightarrow> sys \<Rightarrow> (err + Contact option) \<times> sys" where
  "ContactRepository_update i updates s =
     (case ContactRepository_findById s i of
        None \<Rightarrow> (Inr None, s)
      | Some existingContact \<Rightarrow>
          if un_hubspot_id updates = None \<and> un_firstname updates = None
             \<and> un_lastname updates = None \<and> un_email updates = None
             \<and> un_company_id updates = None
          then (Inr (Some existingContact), s)
          else (case updateContactRows (companies s) (contacts s) i updates of
                  Inl er \<Rightarrow> (Inl er, s)
                | Inr ts \<Rightarrow>
                    (let s' = s\<lparr>contacts := ts\<rparr>
                     in (Inr (ContactRepository_findById s' i), s'))))"

text \<open>
  The \<^verbatim>\<open>CreateContact\<close> passed as the updates: \<open>hubspot_id\<close> and \<open>email\<close> are
  always defined, the three optional fields are defined only when the candidate has them.
\<close>

definition asUpdateContact :: "CreateContact \<Rightarrow> UpdateContact" where
  "asUpdateContact d =
     \<lparr>un_hubspot_id = Some (cn_hubspot_id d), un_firstname = cn_firstname d,
      un_lastname = cn_lastname d, un_email = Some (cn_email d),
      un_company_id = cn_company_id d\<rparr>"

definition ContactRepository_upsertByHubspotId ::
  "env \<Rightarrow> CreateContact \<Rightarrow> sys \<Rightarrow> (err + Contact option) \<times> sys" where
  "ContactRepository_upsertByHubspotId e contactData s =
     (case ContactRepository_findByHubspotId s (cn_hubspot_id contactData) of
        Some existingContact \<Rightarrow>
          ContactRepository_update (ct_id existingContact) (asUpdateContact contactData) s
      | None \<Rightarrow>
          (case ContactRepository_create e contactData s of
             (Inl er, s') \<Rightarrow> (Inl er, s')
           | (Inr contact, s') \<Rightarrow> (Inr (Some contact), s')))"

section \<open>CompanyService and ContactService\<close>

text \<open>
  A \<open>SELECT\<close> on the open database does not fail, so the lookups return normally; the
  services wrap every error of an upsert in \<^verbatim>\<open>AppError(..., 500)\<close>.
\<close>

definition CompanyService_getCompanyByHubspotId :: "sys \<Rightarrow> string \<Rightarrow> err + Company option" where
  "CompanyService_getCompanyByHubspotId s hubspotId =
     Inr (CompanyRepository_findByHubspotId s hubspotId)"

definition CompanyService_upsertCompanyByHubspotId ::
  "env \<Rightarrow> CreateCompany \<Rightarrow> sys \<Rightarrow> (err + Company option) \<times> sys" where
  "CompanyService_upsertCompanyByHubspotId e companyData s =
     (case CompanyRepository_upsertByHubspotId e companyData s of
        (Inl er, s') \<Rightarrow> (Inl (AppError ''Failed to upsert company'' 500), s')
      | (Inr c, s') \<Rightarrow> (Inr c, s'))"

definition ContactService_upsertContactByHubspotId ::
  "env \<Rightarrow> CreateContact \<Rightarrow> sys \<Rightarrow> (err + Contact option) \<times> sys" where
  "ContactService_upsertContactByHubspotId e contactData s =
     (case ContactRepository_upsertByHubspotId e contactData s of
        (Inl er, s') \<Rightarrow> (Inl (AppError ''Failed to upsert contact'' 500), s')
      | (Inr c, s') \<Rightarrow> (Inr c, s'))"

text \<open>
  An optional string in a condition (\<^verbatim>\<open>if (x)\<close>, \<^verbatim>\<open>x && ...\<close>): undefined, null and
  the empty string are falsy. \<^term>\<open>orEmpty\<close> gives the string, empty when there is none.
\<close>

definition orEmpty :: "string option \<Rightarrow> string" where
  "orEmpty x = (case x of None \<Rightarrow> [] | Some v \<Rightarrow> v)"

definition ContactService_createContact ::
  "env \<Rightarrow> CreateContact \<Rightarrow> sys \<Rightarrow> (err + Contact) \<times> sys" where
  "ContactService_createContact e contactData s =
     (let companyId = orEmpty (cn_company_id contactData)
      in if \<not> isValidEmail (cn_email contactData)
      then (Inl (AppError ''Invalid email format'' 400), s)
      else if companyId \<noteq> [] \<and> \<not> isValidUuid companyId
      then (Inl (AppError ''Invalid company ID format'' 400), s)
      else if ContactRepository_findByHubspotId s (cn_hubspot_id contactData) \<noteq> None
      then (Inl (AppError (''Contact with hubspot_id '' @ cn_hubspot_id contactData
                           @ '' already exists'') 409), s)
      else if ContactRepository_findByEmail s (cn_email contactData) \<noteq> None
      then (Inl (AppError (''Contact with email '' @ cn_email contactData
                           @ '' already exists'') 409), s)
      else if companyId \<noteq> [] \<and> CompanyRepository_findById s companyId = None
      then (Inl (AppError (''Company with id '' @ companyId @ '' not found'') 404), s)
      else (case ContactRepository_create e contactData s of
              (Inl er, s') \<Rightarrow>
                (Inl (if isAppError er then er else AppError ''Failed to create contact'' 500), s')
            | (Inr contact, s') \<Rightarrow> (Inr contact, s')))"

section \<open>HubSpotApiService\<close>

text \<open>
  Of a HubSpot object the pipeline reads the id and the requested properties; a property
  that is missing or null is \<^term>\<open>None\<close>. Of a page it reads \<open>results\<close> and
  \<open>paging?.next?.after\<close>: \<^term>\<open>paging_next\<close> is \<^term>\<open>None\<close> when the response has
  no \<open>paging.next\<close>.
\<close>

record HubSpotCompany =
  hco_id :: string
  hco_name :: "string option"
  hco_domain :: "string option"

record HubSpotContact =
  hct_id :: string
  hct_firstname :: "string option"
  hct_lastname :: "string option"
  hct_email :: "string option"
  hct_associatedcompanyid :: "string option"

record 'a HubSpotBaseResponse =
  results :: "'a list"
  paging_next :: "string option"

text \<open>
  The remote service: what a \<open>GET\<close> on each collection answers (a response, or the
  error axios rejects with), given how many requests the running method call has already
  made and the query parameters of this one.
\<close>

type_synonym params = "(string \<times> string) list"

record hubspot =
  contactsEndpoint :: "nat \<Rightarrow> params \<Rightarrow> err + HubSpotContact HubSpotBaseResponse"
  companiesEndpoint :: "nat \<Rightarrow> params \<Rightarrow> err + HubSpotCompany HubSpotBaseResponse"

text \<open>
  The \<^verbatim>\<open>while (hasMore)\<close> loop of \<^verbatim>\<open>getAllContacts\<close> and
  \<^verbatim>\<open>getAllCompanies\<close> (the two differ in the endpoint and the \<open>properties\<close>
  parameter only). One iteration: build the parameters (\<open>after\<close> is added only when it is
  truthy), issue the request, append the results, and go on when the response has a
  \<open>paging.next\<close>. An error of the request leaves the loop and is rethrown. The loop need
  not terminate: not returning is \<^term>\<open>None\<close>. Beside the outcome the model returns
  the parameters of every request issued, in order.
\<close>

definition pageParams :: "params \<Rightarrow> string option \<Rightarrow> params" where
  "pageParams base after = (if orEmpty after \<noteq> [] then base @ [(''after'', orEmpty after)] else base)"

partial_function (option) pageLoop ::
  "(nat \<Rightarrow> params \<Rightarrow> err + 'a HubSpotBaseResponse) \<Rightarrow> params \<Rightarrow> nat \<Rightarrow> string option
     \<Rightarrow> 'a list \<Rightarrow> params list \<Rightarrow> ((err + 'a list) \<times> params list) option" where
  "pageLoop get base pageCount after acc reqs =
     (case get pageCount (pageParams base after) of
        Inl er \<Rightarrow> Some (Inl er, reqs @ [pageParams base after])
      | Inr response \<Rightarrow>
          (case paging_next response of
             None \<Rightarrow> Some (Inr (acc @ results response), reqs @ [pageParams base after])
           | Some a \<Rightarrow>
               pageLoop get base (Suc pageCount) (Some a) (acc @ results response)
                 (reqs @ [pageParams base after])))"

declare pageLoop.simps [code]

definition contactsParams :: params where
  "contactsParams =
     [(''limit'', ''100''), (''properties'', ''firstname,lastname,email,associatedcompanyid'')]"

definition companiesParams :: params where
  "companiesParams = [(''limit'', ''100''), (''properties'', ''name,domain'')]"

definition getAllContacts ::
  "hubspot \<Rightarrow> ((err + HubSpotContact list) \<times> params list) option" where
  "getAllContacts srv = pageLoop (contactsEndpoint srv) contactsParams 0 None [] []"

definition getAllCompanies ::
  "hubspot \<Rightarrow> ((err + HubSpotCompany list) \<times> params list) option" where
  "getAllCompanies srv = pageLoop (companiesEndpoint srv) companiesParams 0 None [] []"

text \<open>
  \<^verbatim>\<open>healthCheck\<close>: one request for a single contact inside \<^verbatim>\<open>try\<close>; the
  \<^verbatim>\<open>catch\<close> returns false.
\<close>

definition healthCheck :: "hubspot \<Rightarrow> err + bool" where
  "healthCheck srv =
     (case contactsEndpoint srv 0 [(''limit'', ''1''), (''properties'', ''email'')] of
        Inl er \<Rightarrow> Inr False
      | Inr response \<Rightarrow> Inr True)"

section \<open>EtlService\<close>

record EtlSyncResponse =
  message :: string
  contactsSynced :: nat
  companiesSynced :: nat
  syncedAt :: string

definition transformHubspotCompany :: "HubSpotCompany \<Rightarrow> CreateCompany" where
  "transformHubspotCompany hubspotCompany =
     (let name = cleanString (hco_name hubspotCompany);
          domain = cleanString (hco_domain hubspotCompany)
      in \<lparr>cc_hubspot_id = hco_id hubspotCompany,
          cc_name = (if name \<noteq> [] then name else ''Unknown Company''),
          cc_domain = (if domain \<noteq> [] then domain else ''unknown.com'')\<rparr>)"

definition pushError :: "string \<Rightarrow> sys \<Rightarrow> sys" where
  "pushError m s = s\<lparr>syncStatus := (syncStatus s)\<lparr>errors := errors (syncStatus s) @ [m]\<rparr>\<rparr>"

definition logWarn :: "string \<Rightarrow> sys \<Rightarrow> sys" where
  "logWarn m s = s\<lparr>warnings := warnings s @ [m]\<rparr>"

text \<open>The body of the \<^verbatim>\<open>for\<close> loop of \<^verbatim>\<open>syncCompanies\<close>, for one record.\<close>

definition syncCompany :: "env \<Rightarrow> HubSpotCompany \<Rightarrow> sys \<Rightarrow> sys" where
  "syncCompany e hubspotCompany s =
     (let companyData = transformHubspotCompany hubspotCompany
      in if cc_name companyData \<noteq> [] \<and> cc_domain companyData \<noteq> []
         then (case CompanyService_upsertCompanyByHubspotId e companyData s of
                 (Inr c, s') \<Rightarrow>
                   s'\<lparr>syncStatus := (syncStatus s')
                        \<lparr>companiesProcessed := Suc (companiesProcessed (syncStatus s'))\<rparr>\<rparr>
               | (Inl er, s') \<Rightarrow>
                   pushError (''Failed to sync company '' @ hco_id hubspotCompany @ '': ''
                              @ formatError er) s')
         else logWarn (''Skipping company '' @ hco_id hubspotCompany
                       @ '' - missing required data'') s)"

definition syncCompanies :: "env \<Rightarrow> hubspot \<Rightarrow> sys \<Rightarrow> ((err + unit) \<times> sys) option" where
  "syncCompanies e srv s =
     (case getAllCompanies srv of
        None \<Rightarrow> None
      | Some (Inl er, rq) \<Rightarrow> Some (Inl er, s)
      | Some (Inr hubspotCompanies, rq) \<Rightarrow>
          Some (Inr (), fold (syncCompany e) hubspotCompanies s))"

definition transformHubspotContact :: "sys \<Rightarrow> HubSpotContact \<Rightarrow> CreateContact" where
  "transformHubspotContact s hubspotContact =
     (let firstname = cleanString (hct_firstname hubspotContact);
          lastname = cleanString (hct_lastname hubspotContact);
          email = cleanString (hct_email hubspotContact);
          associatedCompanyId = orEmpty (hct_associatedcompanyid hubspotContact);
          companyId =
            (if associatedCompanyId \<noteq> []
             then (case CompanyService_getCompanyByHubspotId s associatedCompanyId of
                     Inr company \<Rightarrow> map_option co_id company
                   | Inl er \<Rightarrow> None)
             else None)
      in \<lparr>cn_hubspot_id = hct_id hubspotContact,
          cn_firstname = (if firstname \<noteq> [] then Some firstname else None),
          cn_lastname = (if lastname \<noteq> [] then Some lastname else None),
          cn_email = email,
          cn_company_id = companyId\<rparr>)"

text \<open>The body of the \<^verbatim>\<open>for\<close> loop of \<^verbatim>\<open>syncContacts\<close>, for one record.\<close>

definition syncContact :: "env \<Rightarrow> HubSpotContact \<Rightarrow> sys \<Rightarrow> sys" where
  "syncContact e hubspotContact s =
     (let contactData = transformHubspotContact s hubspotContact
      in if cn_email contactData \<noteq> []
         then (case ContactService_upsertContactByHubspotId e contactData s of
                 (Inr c, s') \<Rightarrow>
                   s'\<lparr>syncStatus := (syncStatus s')
                        \<lparr>contactsProcessed := Suc (contactsProcessed (syncStatus s'))\<rparr>\<rparr>
               | (Inl er, s') \<Rightarrow>
                   pushError (''Failed to sync contact '' @ hct_id hubspotContact @ '': ''
                              @ formatError er) s')
         else logWarn (''Skipping contact '' @ hct_id hubspotContact @ '' - missing email'') s)"

definition syncContacts :: "env \<Rightarrow> hubspot \<Rightarrow> sys \<Rightarrow> ((err + unit) \<times> sys) option" where
  "syncContacts e srv s =
     (case getAllContacts srv of
        None \<Rightarrow> None
      | Some (Inl er, rq) \<Rightarrow> Some (Inl er, s)
      | Some (Inr hubspotContacts, rq) \<Rightarrow>
          Some (Inr (), fold (syncContact e) hubspotContacts s))"

text \<open>
  \<^verbatim>\<open>syncCrmData\<close>. \<^term>\<open>syncPhases\<close> is the \<^verbatim>\<open>try\<close> block up to the end of the
  contact phase; what follows it in the block does not throw. A run whose fetch never
  returns is \<^term>\<open>None\<close>.
\<close>

definition syncPhases :: "env \<Rightarrow> hubspot \<Rightarrow> sys \<Rightarrow> ((err + unit) \<times> sys) option" where
  "syncPhases e srv s =
     (case healthCheck srv of
        Inl er \<Rightarrow> Some (Inl er, s)
      | Inr isHealthy \<Rightarrow>
          if \<not> isHealthy then Some (Inl (AppError ''HubSpot API is not accessible'' 502), s)
          else (case syncCompanies e srv s of
                  None \<Rightarrow> None
                | Some (Inl er, s1) \<Rightarrow> Some (Inl er, s1)
                | Some (Inr u, s1) \<Rightarrow> syncContacts e srv s1))"

definition startRun :: "env \<Rightarrow> sys \<Rightarrow> sys" where
  "startRun e s =
     (let (t, s0) = getCurrentTimestamp e s
      in s0\<lparr>syncStatus := \<lparr>isRunning = True, startedAt = Some t, completedAt = None,
                            contactsProcessed = 0, companiesProcessed = 0, errors = []\<rparr>\<rparr>)"

definition syncCrmData :: "env \<Rightarrow> hubspot \<Rightarrow> sys \<Rightarrow> ((err + EtlSyncResponse) \<times> sys) option" where
  "syncCrmData e srv s =
     (if isRunning (syncStatus s)
      then Some (Inl (AppError ''ETL sync is already running'' 409), s)
      else (case syncPhases e srv (startRun e s) of
              None \<Rightarrow> None
            | Some (Inr u, s2) \<Rightarrow>
                (let (t, s3) = getCurrentTimestamp e s2;
                     s4 = s3\<lparr>syncStatus := (syncStatus s3)
                             \<lparr>completedAt := Some t, isRunning := False\<rparr>\<rparr>
                 in Some (Inr \<lparr>message = ''Sync completed successfully'',
                               contactsSynced = contactsProcessed (syncStatus s4),
                               companiesSynced = companiesProcessed (syncStatus s4),
                               syncedAt = t\<rparr>, s4))
            | Some (Inl er, s2) \<Rightarrow>
                (let (t, s3) = getCurrentTimestamp e s2;
                     s4 = pushError (formatError er)
                            (s3\<lparr>syncStatus := (syncStatus s3)
                                 \<lparr>isRunning := False, completedAt := Some t\<rparr>\<rparr>)
                 in Some (Inl (if isAppError er then er
                               else AppError ''ETL sync failed due to an unexpected error'' 500),
                          s4))))"

section \<open>The status object and its array (getSyncStatus)\<close>

text \<open>
  \<^verbatim>\<open>getSyncStatus() { return { ...this.syncStatus }; }\<close>. For what a caller can do
  to the returned object, the status is modelled with its \<open>errors\<close> array in a store:
  an object holds its scalar properties and a reference to the array. The spread builds a
  new object with the property values of the source, so the new object holds the same
  reference.
\<close>

type_synonym ref = nat

record EtlSyncStatusObj =
  obj_isRunning :: bool
  obj_startedAt :: "string option"
  obj_completedAt :: "string option"
  obj_contactsProcessed :: nat
  obj_companiesProcessed :: nat
  obj_errors :: ref

record EtlServiceHeap =
  arrays :: "ref \<Rightarrow> string list"
  nextRef :: ref
  this_syncStatus :: EtlSyncStatusObj

definition getSyncStatus :: "EtlServiceHeap \<Rightarrow> EtlSyncStatusObj" where
  "getSyncStatus h = this_syncStatus h"

text \<open>The status the service holds, read through the store.\<close>

definition internalStatus :: "EtlServiceHeap \<Rightarrow> EtlSyncStatus" where
  "internalStatus h =
     (let obj = this_syncStatus h
      in \<lparr>isRunning = obj_isRunning obj, startedAt = obj_startedAt obj,
          completedAt = obj_completedAt obj, contactsProcessed = obj_contactsProcessed obj,
          companiesProcessed = obj_companiesProcessed obj,
          errors = arrays h (obj_errors obj)\<rparr>)"

text \<open>
  What a caller can do to the object it received: assign a property (a new array for
  \<open>errors\<close> is allocated at a fresh reference), or mutate the array the object refers to
  (\<^verbatim>\<open>push\<close>, \<^verbatim>\<open>pop\<close>).
\<close>

datatype callerOp =
    AssignIsRunning bool
  | AssignStartedAt "string option"
  | AssignCompletedAt "string option"
  | AssignContactsProcessed nat
  | AssignCompaniesProcessed nat
  | AssignErrors "string list"
  | ErrorsPush string
  | ErrorsPop

fun callerStep :: "callerOp \<Rightarrow> EtlSyncStatusObj \<times> EtlServiceHeap \<Rightarrow> EtlSyncStatusObj \<times> EtlServiceHeap" where
  "callerStep (AssignIsRunning b) (obj, h) = (obj\<lparr>obj_isRunning := b\<rparr>, h)"
| "callerStep (AssignStartedAt t) (obj, h) = (obj\<lparr>obj_startedAt := t\<rparr>, h)"
| "callerStep (AssignCompletedAt t) (obj, h) = (obj\<lparr>obj_completedAt := t\<rparr>, h)"
| "callerStep (AssignContactsProcessed n) (obj, h) = (obj\<lparr>obj_contactsProcessed := n\<rparr>, h)"
| "callerStep (AssignCompaniesProcessed n) (obj, h) = (obj\<lparr>obj_companiesProcessed := n\<rparr>, h)"
| "callerStep (AssignErrors xs) (obj, h) =
     (obj\<lparr>obj_errors := nextRef h\<rparr>,
      h\<lparr>arrays := (arrays h)(nextRef h := xs), nextRef := Suc (nextRef h)\<rparr>)"
| "callerStep (ErrorsPush x) (obj, h) =
     (obj, h\<lparr>arrays := (arrays h)(obj_errors obj := arrays h (obj_errors obj) @ [x])\<rparr>)"
| "callerStep (ErrorsPop) (obj, h) =
     (obj, h\<lparr>arrays := (arrays h)(obj_errors obj := butlast (arrays h (obj_errors obj)))\<rparr>)"

definition callerMutates :: "callerOp list \<Rightarrow> EtlServiceHeap \<Rightarrow> EtlServiceHeap" where
  "callerMutates ops h = snd (fold callerStep ops (getSyncStatus h, h))"

section \<open>Notions used in the statements\<close>

subsection \<open>Well-formed tables\<close>

text \<open>
  The schema keeps \<open>id\<close> and \<open>hubspot_id\<close> unique in \<open>companies\<close>, and \<open>id\<close>,
  \<open>hubspot_id\<close> and \<open>email\<close> unique in \<open>contacts\<close>.
\<close>

definition wfCompanies :: "sys \<Rightarrow> bool" where
  "wfCompanies s \<longleftrightarrow>
     distinct (map co_id (companies s)) \<and> distinct (map co_hubspot_id (companies s))"

definition wfContacts :: "sys \<Rightarrow> bool" where
  "wfContacts s \<longleftrightarrow>
     distinct (map ct_id (contacts s)) \<and> distinct (map ct_hubspot_id (contacts s))
     \<and> distinct (map ct_email (contacts s))"

text \<open>No stored contact other than the one with local id \<open>i\<close> holds the email \<open>m\<close>.\<close>

definition emailFree :: "sys \<Rightarrow> string \<Rightarrow> string \<Rightarrow> bool" where
  "emailFree s i m \<longleftrightarrow> list_all (\<lambda>c. ct_email c = m \<longrightarrow> ct_id c = i) (contacts s)"

text \<open>
  The upsert of candidate \<open>d\<close> meets no constraint of \<open>contacts\<close>: the table is well
  formed, and the email is held by no other contact (and, for a new external id, the
  identifier drawn for the insert is unused).
\<close>

definition storable :: "env \<Rightarrow> sys \<Rightarrow> CreateContact \<Rightarrow> bool" where
  "storable e s d \<longleftrightarrow>
     wfContacts s
     \<and> (case ContactRepository_findByHubspotId s (cn_hubspot_id d) of
          Some old \<Rightarrow> emailFree s (ct_id old) (cn_email d)
        | None \<Rightarrow> gen_id e (idctr s) \<notin> set (map ct_id (contacts s))
                  \<and> cn_email d \<notin> set (map ct_email (contacts s)))"

text \<open>
  Referential integrity: every stored contact's company reference, when it has one, is the
  local id of a stored company. The foreign key of the schema maintains it.
\<close>

definition refsOk :: "sys \<Rightarrow> bool" where
  "refsOk s \<longleftrightarrow> list_all (\<lambda>c. foreignKeyOk (companies s) (ct_company_id c)) (contacts s)"

subsection \<open>Repeated upserts\<close>

text \<open>The same upsert, \<open>n\<close> times in a row.\<close>

primrec upsertCompanyTimes :: "env \<Rightarrow> CreateCompany \<Rightarrow> nat \<Rightarrow> sys \<Rightarrow> sys" where
  "upsertCompanyTimes e d 0 s = s"
| "upsertCompanyTimes e d (Suc n) s =
     upsertCompanyTimes e d n (snd (CompanyRepository_upsertByHubspotId e d s))"

subsection \<open>Fetched contacts\<close>

text \<open>
  A fetched contact is well formed when its email is not empty after trimming; the line
  \<^verbatim>\<open>syncContacts\<close> gives to \<^verbatim>\<open>logger.warn\<close> for one that is not.
\<close>

definition wellFormedContact :: "HubSpotContact \<Rightarrow> bool" where
  "wellFormedContact h \<longleftrightarrow> cleanString (hct_email h) \<noteq> []"

definition skipContactLine :: "HubSpotContact \<Rightarrow> string" where
  "skipContactLine h = ''Skipping contact '' @ hct_id h @ '' - missing email''"

subsection \<open>The course of a fetch\<close>

text \<open>
  Read off the remote service: the cursor the loop holds before its \<open>n\<close>-th request
  (counting from 0), the parameters of that request and the answer to it; whether an
  answer is a page with a \<open>paging.next\<close>, or a page without one; and the records of an
  answer.
\<close>

fun cursorAt :: "(nat \<Rightarrow> params \<Rightarrow> err + 'a HubSpotBaseResponse) \<Rightarrow> params \<Rightarrow> nat \<Rightarrow> string option" where
  "cursorAt get base 0 = None"
| "cursorAt get base (Suc n) =
     (case get n (pageParams base (cursorAt get base n)) of
        Inl er \<Rightarrow> None
      | Inr response \<Rightarrow> paging_next response)"

definition requestAt :: "(nat \<Rightarrow> params \<Rightarrow> err + 'a HubSpotBaseResponse) \<Rightarrow> params \<Rightarrow> nat \<Rightarrow> params" where
  "requestAt get base n = pageParams base (cursorAt get base n)"

definition responseAt ::
  "(nat \<Rightarrow> params \<Rightarrow> err + 'a HubSpotBaseResponse) \<Rightarrow> params \<Rightarrow> nat \<Rightarrow> err + 'a HubSpotBaseResponse" where
  "responseAt get base n = get n (requestAt get base n)"

definition hasNext :: "err + 'a HubSpotBaseResponse \<Rightarrow> bool" where
  "hasNext x = (case x of Inl er \<Rightarrow> False | Inr response \<Rightarrow> paging_next response \<noteq> None)"

definition lastPage :: "err + 'a HubSpotBaseResponse \<Rightarrow> bool" where
  "lastPage x = (case x of Inl er \<Rightarrow> False | Inr response \<Rightarrow> paging_next response = None)"

definition resultsOf :: "err + 'a HubSpotBaseResponse \<Rightarrow> 'a list" where
  "resultsOf x = (case x of Inl er \<Rightarrow> [] | Inr response \<Rightarrow> results response)"

subsection \<open>Callers of getSyncStatus\<close>

text \<open>The caller operations that touch no array.\<close>

definition scalarOp :: "callerOp \<Rightarrow> bool" where
  "scalarOp c = (case c of ErrorsPush x \<Rightarrow> False | ErrorsPop \<Rightarrow> False | AssignErrors xs \<Rightarrow> False | _ \<Rightarrow> True)"

subsection \<open>Example systems\<close>

text \<open>
  A fresh system (empty tables, the initial status of \<^verbatim>\<open>EtlService\<close>), an
  environment whose identifiers and timestamps are pairwise distinct, a system in the
  middle of a run, and the store of a new \<^verbatim>\<open>EtlService\<close>.
\<close>

definition idleStatus :: EtlSyncStatus where
  "idleStatus = \<lparr>isRunning = False, startedAt = None, completedAt = None,
                  contactsProcessed = 0, companiesProcessed = 0, errors = []\<rparr>"

definition emptySys :: sys where
  "emptySys = \<lparr>companies = [], contacts = [], syncStatus = idleStatus,
                warnings = [], idctr = 0, clock = 0\<rparr>"

definition sampleEnv :: env where
  "sampleEnv = \<lparr>gen_id = (\<lambda>n. ''id'' @ replicate n CHR ''i''),
                 now = (\<lambda>n. ''t'' @ replicate n CHR ''i'')\<rparr>"

definition runningSys :: sys where
  "runningSys = emptySys\<lparr>syncStatus := \<lparr>isRunning = True, startedAt = Some ''t'',
     completedAt = None, contactsProcessed = 2, companiesProcessed = 3,
     errors = [''Failed to sync company 7: Failed to upsert company'']\<rparr>\<rparr>"

definition freshHeap :: EtlServiceHeap where
  "freshHeap = \<lparr>arrays = (\<lambda>r. []), nextRef = 1,
     this_syncStatus = \<lparr>obj_isRunning = False, obj_startedAt = None, obj_completedAt = None,
       obj_contactsProcessed = 0, obj_companiesProcessed = 0, obj_errors = 0\<rparr>\<rparr>"






subsection \<open>Example remote services\<close>

text \<open>
  Fetched contacts: two with the same email under different external ids, one whose email
  is blank, one that refers to a company, and one whose email is not an email address.
\<close>

definition ann101 :: HubSpotContact where
  "ann101 = \<lparr>hct_id = ''101'', hct_firstname = Some ''Ann'', hct_lastname = None,
              hct_email = Some ''ann@x.io'', hct_associatedcompanyid = None\<rparr>"

definition bob102 :: HubSpotContact where
  "bob102 = \<lparr>hct_id = ''102'', hct_firstname = Some ''Bob'', hct_lastname = None,
              hct_email = Some ''  '', hct_associatedcompanyid = None\<rparr>"

definition ann103 :: HubSpotContact where
  "ann103 = \<lparr>hct_id = ''103'', hct_firstname = Some ''Ann'', hct_lastname = Some ''Lee'',
              hct_email = Some ''ann@x.io'', hct_associatedcompanyid = None\<rparr>"

definition eve104 :: HubSpotContact where
  "eve104 = \<lparr>hct_id = ''104'', hct_firstname = None, hct_lastname = Some ''Eve'',
              hct_email = Some '' eve@x.io '', hct_associatedcompanyid = Some ''900''\<rparr>"

definition zed201 :: HubSpotContact where
  "zed201 = \<lparr>hct_id = ''201'', hct_firstname = Some ''Zed'', hct_lastname = None,
              hct_email = Some '' invalid-email '', hct_associatedcompanyid = None\<rparr>"

text \<open>
  \<^term>\<open>downServer\<close> rejects every request. \<^term>\<open>dupServer\<close> serves the two contacts
  with the same email and the blank one in one page; \<^term>\<open>okServer\<close> serves one company
  and three contacts with distinct emails, and \<^term>\<open>okFinal\<close> is the state in which
  the run over it from the fresh system ends. \<^term>\<open>cursorServer\<close> serves two pages of
  contacts, the second under the cursor \<open>c1\<close>; the first page of
  \<^term>\<open>emptyCursorServer\<close> carries the empty string as its cursor; every page of
  \<^term>\<open>endlessServer\<close> carries a cursor.
\<close>

definition downServer :: hubspot where
  "downServer = \<lparr>contactsEndpoint = (\<lambda>n p. Inl (Error ''Network Error'')),
                  companiesEndpoint = (\<lambda>n p. Inl (Error ''Network Error''))\<rparr>"

definition dupServer :: hubspot where
  "dupServer =
     \<lparr>contactsEndpoint = (\<lambda>n p. Inr \<lparr>results = [ann101, bob102, ann103], paging_next = None\<rparr>),
      companiesEndpoint = (\<lambda>n p. Inr \<lparr>results = [], paging_next = None\<rparr>)\<rparr>"

definition okServer :: hubspot where
  "okServer =
     \<lparr>contactsEndpoint = (\<lambda>n p. Inr \<lparr>results = [ann101, bob102, eve104], paging_next = None\<rparr>),
      companiesEndpoint = (\<lambda>n p. Inr \<lparr>results =
          [\<lparr>hco_id = ''900'', hco_name = Some ''Acme'', hco_domain = None\<rparr>],
          paging_next = None\<rparr>)\<rparr>"

definition okFinal :: sys where
  "okFinal =
     \<lparr>companies = [\<lparr>co_id = ''id'', co_hubspot_id = ''900'', co_name = ''Acme'',
                    co_domain = ''unknown.com'', co_created_at = ''ti''\<rparr>],
      contacts = [\<lparr>ct_id = ''idi'', ct_hubspot_id = ''101'', ct_firstname = Some ''Ann'',
                   ct_lastname = None, ct_email = ''ann@x.io'', ct_company_id = None,
                   ct_created_at = ''tii''\<rparr>,
                  \<lparr>ct_id = ''idii'', ct_hubspot_id = ''104'', ct_firstname = None,
                   ct_lastname = Some ''Eve'', ct_email = ''eve@x.io'',
                   ct_company_id = Some ''id'', ct_created_at = ''tiii''\<rparr>],
      syncStatus = \<lparr>isRunning = False, startedAt = Some ''t'',
                     completedAt = Some ''tiiii'', contactsProcessed = 2,
                     companiesProcessed = 1, errors = []\<rparr>,
      warnings = [''Skipping contact 102 - missing email''], idctr = 3, clock = 5\<rparr>"

definition cursorServer :: hubspot where
  "cursorServer =
     \<lparr>contactsEndpoint = (\<lambda>n p.
        case map_of p ''after'' of
          None \<Rightarrow> Inr \<lparr>results = [ann101, bob102], paging_next = Some ''c1''\<rparr>
        | Some a \<Rightarrow> if a = ''c1'' then Inr \<lparr>results = [eve104], paging_next = None\<rparr>
                    else Inl (Error ''Request failed with status code 400'')),
      companiesEndpoint = (\<lambda>n p. Inr \<lparr>results = [], paging_next = None\<rparr>)\<rparr>"

definition emptyCursorServer :: hubspot where
  "emptyCursorServer =
     \<lparr>contactsEndpoint = (\<lambda>n p.
        if n = 0 then Inr \<lparr>results = [ann101], paging_next = Some []\<rparr>
        else Inr \<lparr>results = [eve104], paging_next = None\<rparr>),
      companiesEndpoint = (\<lambda>n p. Inr \<lparr>results = [], paging_next = None\<rparr>)\<rparr>"

definition endlessServer :: hubspot where
  "endlessServer =
     \<lparr>contactsEndpoint = (\<lambda>n p. Inr \<lparr>results = [ann101], paging_next = Some ''again''\<rparr>),
      companiesEndpoint = (\<lambda>n p. Inr \<lparr>results = [], paging_next = None\<rparr>)\<rparr>"

text \<open>
  \<^term>\<open>placeholderServer\<close> serves three companies, one without a domain, one with a
  blank name and one with neither, and no contact.
\<close>

definition placeholderServer :: hubspot where
  "placeholderServer =
     \<lparr>contactsEndpoint = (\<lambda>n p. Inr \<lparr>results = [], paging_next = None\<rparr>),
      companiesEndpoint = (\<lambda>n p. Inr \<lparr>results =
          [\<lparr>hco_id = ''900'', hco_name = Some ''Acme'', hco_domain = None\<rparr>,
           \<lparr>hco_id = ''901'', hco_name = Some ''  '', hco_domain = Some '' b.io ''\<rparr>,
           \<lparr>hco_id = ''902'', hco_name = None, hco_domain = None\<rparr>],
          paging_next = None\<rparr>)\<rparr>"

text \<open>
  \<^term>\<open>twinServer\<close> serves two contacts whose email is the same string, not an email
  address, under different external ids; \<^term>\<open>twinFinal\<close> is the state in which the
  run over it from the fresh system ends.
\<close>

definition zed202 :: HubSpotContact where
  "zed202 = \<lparr>hct_id = ''202'', hct_firstname = Some ''Zoe'', hct_lastname = None,
              hct_email = Some ''invalid-email'', hct_associatedcompanyid = None\<rparr>"

definition twinServer :: hubspot where
  "twinServer =
     \<lparr>contactsEndpoint = (\<lambda>n p. Inr \<lparr>results = [zed201, zed202], paging_next = None\<rparr>),
      companiesEndpoint = (\<lambda>n p. Inr \<lparr>results = [], paging_next = None\<rparr>)\<rparr>"

definition twinFinal :: sys where
  "twinFinal =
     \<lparr>companies = [],
      contacts = [\<lparr>ct_id = ''id'', ct_hubspot_id = ''201'', ct_firstname = Some ''Zed'',
                   ct_lastname = None, ct_email = ''invalid-email'', ct_company_id = None,
                   ct_created_at = ''ti''\<rparr>],
      syncStatus = \<lparr>isRunning = False, startedAt = Some ''t'',
                     completedAt = Some ''tiii'', contactsProcessed = 1,
                     companiesProcessed = 0,
                     errors = [''Failed to sync contact 202: Failed to upsert contact'']\<rparr>,
      warnings = [], idctr = 2, clock = 4\<rparr>"

section \<open>The pattern of isValidEmail\<close>

text \<open>
  \<^term>\<open>isValidEmail\<close> accepts exactly the strings the regular expression matches: a
  non-empty run of characters that are neither white space nor \<open>@\<close>, an \<open>@\<close>, a second
  such run, a dot, and a third such run (the runs may contain dots).
\<close>

lemma dot_emailChar: "emailChar CHR ''.''"
  by (simp add: emailChar_def isWhiteSpace_def)

lemma isValidEmail_iff:
  "isValidEmail s \<longleftrightarrow>
     (\<exists>a b c. s = a @ CHR ''@'' # b @ CHR ''.'' # c \<and> a \<noteq> [] \<and> b \<noteq> [] \<and> c \<noteq> []
        \<and> list_all emailChar a \<and> list_all emailChar b \<and> list_all emailChar c)"
proof
  assume v: "isValidEmail s"
  define a where "a = takeWhile (\<lambda>c. c \<noteq> CHR ''@'') s"
  define r where "r = drop (Suc (length a)) s"
  from v have a1: "a \<noteq> []" and a2: "length a < length s" and a3: "list_all emailChar a"
    and r1: "list_all emailChar r" and r2: "CHR ''.'' \<in> set (butlast (tl r))"
    by (simp_all add: isValidEmail_def Let_def a_def r_def)
  have rest: "dropWhile (\<lambda>c. c \<noteq> CHR ''@'') s \<noteq> []"
  proof
    assume "dropWhile (\<lambda>c. c \<noteq> CHR ''@'') s = []"
    then have "takeWhile (\<lambda>c. c \<noteq> CHR ''@'') s = s"
      using takeWhile_dropWhile_id[of "\<lambda>c. c \<noteq> CHR ''@''" s] by simp
    with a2 show False by (simp add: a_def)
  qed
  then have "\<not> hd (dropWhile (\<lambda>c. c \<noteq> CHR ''@'') s) \<noteq> CHR ''@''"
    by (rule hd_dropWhile)
  then have "hd (dropWhile (\<lambda>c. c \<noteq> CHR ''@'') s) = CHR ''@''"
    by simp
  then have dw: "dropWhile (\<lambda>c. c \<noteq> CHR ''@'') s = CHR ''@'' # tl (dropWhile (\<lambda>c. c \<noteq> CHR ''@'') s)"
    using rest by (metis list.collapse)
  have s: "s = a @ CHR ''@'' # r"
  proof -
    have "s = a @ dropWhile (\<lambda>c. c \<noteq> CHR ''@'') s" by (simp add: a_def)
    also have "\<dots> = a @ CHR ''@'' # tl (dropWhile (\<lambda>c. c \<noteq> CHR ''@'') s)" using dw by simp
    finally have e: "s = a @ CHR ''@'' # tl (dropWhile (\<lambda>c. c \<noteq> CHR ''@'') s)" .
    have "r = drop (Suc (length a)) (a @ CHR ''@'' # tl (dropWhile (\<lambda>c. c \<noteq> CHR ''@'') s))"
      unfolding r_def using e by simp
    then have "r = tl (dropWhile (\<lambda>c. c \<noteq> CHR ''@'') s)" by simp
    with e show ?thesis by simp
  qed
  from r2 obtain p q where pq: "butlast (tl r) = p @ CHR ''.'' # q" by (meson split_list)
  then have tlne: "tl r \<noteq> []" by auto
  then have rne: "r \<noteq> []" by auto
  have "tl r = butlast (tl r) @ [last (tl r)]" using tlne by simp
  then have "tl r = p @ CHR ''.'' # (q @ [last (tl r)])"
    using pq by simp
  moreover have "r = hd r # tl r" using rne by simp
  ultimately have req: "r = (hd r # p) @ CHR ''.'' # (q @ [last (tl r)])"
    by (metis append_Cons)
  have "list_all emailChar ((hd r # p) @ CHR ''.'' # (q @ [last (tl r)]))"
    using r1 req by simp
  then have "list_all emailChar (hd r # p)" "list_all emailChar (q @ [last (tl r)])"
    by simp_all
  with req show "\<exists>a b c. s = a @ CHR ''@'' # b @ CHR ''.'' # c \<and> a \<noteq> [] \<and> b \<noteq> [] \<and> c \<noteq> []
        \<and> list_all emailChar a \<and> list_all emailChar b \<and> list_all emailChar c"
    using s a1 a3 by (intro exI[of _ a] exI[of _ "hd r # p"] exI[of _ "q @ [last (tl r)]"]) simp
next
  assume "\<exists>a b c. s = a @ CHR ''@'' # b @ CHR ''.'' # c \<and> a \<noteq> [] \<and> b \<noteq> [] \<and> c \<noteq> []
        \<and> list_all emailChar a \<and> list_all emailChar b \<and> list_all emailChar c"
  then obtain a b c where s: "s = a @ CHR ''@'' # b @ CHR ''.'' # c"
    and ne: "a \<noteq> []" "b \<noteq> []" "c \<noteq> []"
    and ok: "list_all emailChar a" "list_all emailChar b" "list_all emailChar c"
    by blast
  have noat: "\<forall>x \<in> set a. x \<noteq> CHR ''@''" using ok(1) by (simp add: list_all_iff emailChar_def)
  have tw: "takeWhile (\<lambda>c. c \<noteq> CHR ''@'') s = a"
    unfolding s using noat by (simp add: takeWhile_tail)
  have dr: "drop (Suc (length a)) s = b @ CHR ''.'' # c" unfolding s by simp
  have "butlast (tl (b @ CHR ''.'' # c)) = tl b @ CHR ''.'' # butlast c"
    using ne by (cases b) (simp_all add: butlast_append)
  then have dot: "CHR ''.'' \<in> set (butlast (tl (b @ CHR ''.'' # c)))" by simp
  show "isValidEmail s"
    unfolding isValidEmail_def Let_def tw dr
    using ne ok dot dot_emailChar s by simp
qed

text \<open>The helpers on the values the tests of the repository use.\<close>

lemma helpers_on_test_values:
  "isValidEmail ''test@example.com'' \<and> \<not> isValidEmail ''invalid-email''
   \<and> isValidUuid ''123e4567-e89b-12d3-a456-426614174000''
   \<and> \<not> isValidUuid ''non-existent-id''
   \<and> cleanString None = [] \<and> cleanString (Some ''   '') = []
   \<and> cleanString (Some ''  Acme Inc  '') = ''Acme Inc''"
  by code_simp

section \<open>Lists as tables\<close>


lemma find_Some_mem: "find P xs = Some x \<Longrightarrow> x \<in> set xs \<and> P x"
  by (auto simp: find_Some_iff)

lemma find_distinct_key:
  "distinct (map f xs) \<Longrightarrow> x \<in> set xs \<Longrightarrow> find (\<lambda>y. f y = f x) xs = Some x"
  by (induction xs) (auto simp: rev_image_eqI)

lemma filter_key_distinct:
  "distinct (map f xs) \<Longrightarrow> x \<in> set xs \<Longrightarrow> filter (\<lambda>y. f y = f x) xs = [x]"
  by (induction xs) (auto simp: rev_image_eqI filter_empty_conv)

lemma find_map_upd:
  "x \<in> set xs \<Longrightarrow> f x = k \<Longrightarrow> f v = k \<Longrightarrow>
   find (\<lambda>c. f c = k) (map (\<lambda>c. if f c = k then v else c) xs) = Some v"
  by (induction xs) auto

section \<open>Company upsert\<close>

lemma update_existing:
  assumes wf: "wfCompanies s" and ex: "CompanyRepository_findByHubspotId s (cc_hubspot_id d) = Some old"
  shows "CompanyRepository_update (co_id old) (asUpdateCompany d) s =
          (Inr (Some (old\<lparr>co_name := cc_name d, co_domain := cc_domain d\<rparr>)),
           s\<lparr>companies := map (\<lambda>c. if co_id c = co_id old then old\<lparr>co_name := cc_name d, co_domain := cc_domain d\<rparr> else c) (companies s)\<rparr>)"
proof -
  from ex have mem: "old \<in> set (companies s)" and hid: "co_hubspot_id old = cc_hubspot_id d"
    by (auto simp: CompanyRepository_findByHubspotId_def dest: find_Some_mem)
  from wf have d1: "distinct (map co_id (companies s))" and d2: "distinct (map co_hubspot_id (companies s))"
    by (auto simp: wfCompanies_def)
  have f1: "CompanyRepository_findById s (co_id old) = Some old"
    unfolding CompanyRepository_findById_def using find_distinct_key[OF d1 mem] .
  have noconf: "\<not> (\<exists>c' \<in> set (companies s). co_id c' \<noteq> co_id old \<and> co_hubspot_id c' = cc_hubspot_id d)"
    using d2 mem hid by (metis distinct_map inj_onD)
  have same: "map (\<lambda>c. if co_id c = co_id old then setCompanyFields (asUpdateCompany d) c else c) (companies s)
      = map (\<lambda>c. if co_id c = co_id old then old\<lparr>co_name := cc_name d, co_domain := cc_domain d\<rparr> else c) (companies s)"
  proof (rule map_cong[OF refl])
    fix c assume "c \<in> set (companies s)"
    then have "co_id c = co_id old \<Longrightarrow> c = old"
      using d1 mem by (meson distinct_map inj_onD)
    then show "(if co_id c = co_id old then setCompanyFields (asUpdateCompany d) c else c)
       = (if co_id c = co_id old then old\<lparr>co_name := cc_name d, co_domain := cc_domain d\<rparr> else c)"
      using hid by (auto simp: setCompanyFields_def asUpdateCompany_def)
  qed
  have rows: "updateCompanyRows (companies s) (co_id old) (asUpdateCompany d) =
     Inr (map (\<lambda>c. if co_id c = co_id old then old\<lparr>co_name := cc_name d, co_domain := cc_domain d\<rparr> else c) (companies s))"
    unfolding updateCompanyRows_def same using noconf by (simp add: asUpdateCompany_def)
  have f2: "find (\<lambda>c. co_id c = co_id old) (map (\<lambda>c. if co_id c = co_id old then old\<lparr>co_name := cc_name d, co_domain := cc_domain d\<rparr> else c) (companies s))
      = Some (old\<lparr>co_name := cc_name d, co_domain := cc_domain d\<rparr>)"
    using mem by (intro find_map_upd[where x=old]) auto
  show ?thesis
    using f1 rows f2 by (simp add: CompanyRepository_update_def CompanyRepository_findById_def asUpdateCompany_def)
qed

lemma find_None_notin: "find (\<lambda>y. f y = k) xs = None \<longleftrightarrow> k \<notin> set (map f xs)"
  by (induction xs) auto

lemma create_fresh:
  assumes wf: "wfCompanies s"
    and absent: "CompanyRepository_findByHubspotId s (cc_hubspot_id d) = None"
    and fresh: "gen_id e (idctr s) \<notin> set (map co_id (companies s))"
  shows "CompanyRepository_create e d s =
     (Inr \<lparr>co_id = gen_id e (idctr s), co_hubspot_id = cc_hubspot_id d, co_name = cc_name d,
            co_domain = cc_domain d, co_created_at = now e (clock s)\<rparr>,
      s\<lparr>idctr := Suc (idctr s), clock := Suc (clock s),
        companies := companies s @ [\<lparr>co_id = gen_id e (idctr s), co_hubspot_id = cc_hubspot_id d,
            co_name = cc_name d, co_domain = cc_domain d, co_created_at = now e (clock s)\<rparr>]\<rparr>)"
proof -
  from absent have "cc_hubspot_id d \<notin> set (map co_hubspot_id (companies s))"
    by (simp add: CompanyRepository_findByHubspotId_def find_None_notin)
  with fresh show ?thesis
    by (simp add: CompanyRepository_create_def generateId_def getCurrentTimestamp_def
        insertCompany_def Let_def)
qed

lemma wf_after_update:
  assumes wf: "wfCompanies s" and mem: "old \<in> set (companies s)"
    and v: "co_id v = co_id old" "co_hubspot_id v = co_hubspot_id old"
  shows "wfCompanies (s\<lparr>companies := map (\<lambda>c. if co_id c = co_id old then v else c) (companies s)\<rparr>)"
proof -
  have "map co_id (map (\<lambda>c. if co_id c = co_id old then v else c) (companies s)) = map co_id (companies s)"
    using v by (induction "companies s") auto
  moreover have "map co_hubspot_id (map (\<lambda>c. if co_id c = co_id old then v else c) (companies s))
      = map co_hubspot_id (companies s)"
  proof -
    have "\<And>c. c \<in> set (companies s) \<Longrightarrow> co_id c = co_id old \<Longrightarrow> c = old"
      using wf mem unfolding wfCompanies_def by (meson distinct_map inj_onD)
    then show ?thesis using v by (auto intro!: map_cong simp: comp_def)
  qed
  ultimately show ?thesis using wf by (simp add: wfCompanies_def del: map_map)
qed

lemma find_append_new:
  "k \<notin> set (map f xs) \<Longrightarrow> f v = k \<Longrightarrow> find (\<lambda>c. f c = k) (xs @ [v]) = Some v"
  by (induction xs) auto

lemma upsert_existing:
  assumes wf: "wfCompanies s"
    and ex: "CompanyRepository_findByHubspotId s (cc_hubspot_id d) = Some old"
  shows "CompanyRepository_upsertByHubspotId e d s =
          (Inr (Some (old\<lparr>co_name := cc_name d, co_domain := cc_domain d\<rparr>)),
           s\<lparr>companies := map (\<lambda>c. if co_id c = co_id old
               then old\<lparr>co_name := cc_name d, co_domain := cc_domain d\<rparr> else c) (companies s)\<rparr>)"
  using update_existing[OF wf ex] ex by (simp add: CompanyRepository_upsertByHubspotId_def)

lemma upsert_absent:
  assumes wf: "wfCompanies s"
    and absent: "CompanyRepository_findByHubspotId s (cc_hubspot_id d) = None"
    and fresh: "gen_id e (idctr s) \<notin> set (map co_id (companies s))"
  shows "CompanyRepository_upsertByHubspotId e d s =
     (Inr (Some \<lparr>co_id = gen_id e (idctr s), co_hubspot_id = cc_hubspot_id d, co_name = cc_name d,
            co_domain = cc_domain d, co_created_at = now e (clock s)\<rparr>),
      s\<lparr>idctr := Suc (idctr s), clock := Suc (clock s),
        companies := companies s @ [\<lparr>co_id = gen_id e (idctr s), co_hubspot_id = cc_hubspot_id d,
            co_name = cc_name d, co_domain = cc_domain d, co_created_at = now e (clock s)\<rparr>]\<rparr>)"
  using create_fresh[OF wf absent fresh] absent by (simp add: CompanyRepository_upsertByHubspotId_def)

lemma upsert_company_result:
  assumes wf: "wfCompanies s"
    and fresh: "CompanyRepository_findByHubspotId s (cc_hubspot_id d) = None \<longrightarrow>
                gen_id e (idctr s) \<notin> set (map co_id (companies s))"
  shows "\<exists>c s'. CompanyRepository_upsertByHubspotId e d s = (Inr (Some c), s')
      \<and> wfCompanies s'
      \<and> CompanyRepository_findByHubspotId s' (cc_hubspot_id d) = Some c
      \<and> co_hubspot_id c = cc_hubspot_id d \<and> co_name c = cc_name d \<and> co_domain c = cc_domain d
      \<and> (\<forall>old. CompanyRepository_findByHubspotId s (cc_hubspot_id d) = Some old \<longrightarrow>
             co_id c = co_id old \<and> co_created_at c = co_created_at old
             \<and> length (companies s') = length (companies s))
      \<and> (CompanyRepository_findByHubspotId s (cc_hubspot_id d) = None \<longrightarrow>
             co_id c = gen_id e (idctr s) \<and> co_created_at c = now e (clock s))"
proof (cases "CompanyRepository_findByHubspotId s (cc_hubspot_id d)")
  case None
  let ?c = "\<lparr>co_id = gen_id e (idctr s), co_hubspot_id = cc_hubspot_id d, co_name = cc_name d,
            co_domain = cc_domain d, co_created_at = now e (clock s)\<rparr>"
  from None fresh have fr: "gen_id e (idctr s) \<notin> set (map co_id (companies s))" by simp
  from None have nh: "cc_hubspot_id d \<notin> set (map co_hubspot_id (companies s))"
    by (simp add: CompanyRepository_findByHubspotId_def find_None_notin)
  have "wfCompanies (s\<lparr>idctr := Suc (idctr s), clock := Suc (clock s), companies := companies s @ [?c]\<rparr>)"
    using wf fr nh by (simp add: wfCompanies_def)
  moreover have "find (\<lambda>c. co_hubspot_id c = cc_hubspot_id d) (companies s @ [?c]) = Some ?c"
    using nh by (intro find_append_new) auto
  ultimately show ?thesis
    using upsert_absent[OF wf None fr] None
    by (simp add: CompanyRepository_findByHubspotId_def)
next
  case (Some old)
  let ?v = "old\<lparr>co_name := cc_name d, co_domain := cc_domain d\<rparr>"
  let ?s' = "s\<lparr>companies := map (\<lambda>c. if co_id c = co_id old then ?v else c) (companies s)\<rparr>"
  from Some have mem: "old \<in> set (companies s)" and hid: "co_hubspot_id old = cc_hubspot_id d"
    by (auto simp: CompanyRepository_findByHubspotId_def dest: find_Some_mem)
  have wf': "wfCompanies ?s'"
    by (rule wf_after_update[OF wf mem]) simp_all
  have vmem: "?v \<in> set (companies ?s')" using mem by (auto intro!: image_eqI[where x=old])
  have "find (\<lambda>y. co_hubspot_id y = co_hubspot_id ?v) (companies ?s') = Some ?v"
    using wf' vmem unfolding wfCompanies_def by (intro find_distinct_key) auto
  then have "CompanyRepository_findByHubspotId ?s' (cc_hubspot_id d) = Some ?v"
    using hid by (simp add: CompanyRepository_findByHubspotId_def)
  then show ?thesis
    using upsert_existing[OF wf Some] wf' Some hid by simp
qed

lemma upsert_company_idem:
  assumes wf: "wfCompanies s"
    and ex: "CompanyRepository_findByHubspotId s (cc_hubspot_id d) = Some c"
    and same: "co_name c = cc_name d" "co_domain c = cc_domain d"
  shows "CompanyRepository_upsertByHubspotId e d s = (Inr (Some c), s)"
proof -
  from ex have mem: "c \<in> set (companies s)"
    by (auto simp: CompanyRepository_findByHubspotId_def dest: find_Some_mem)
  have v: "c\<lparr>co_name := cc_name d, co_domain := cc_domain d\<rparr> = c"
    using same by simp
  have "\<And>c'. c' \<in> set (companies s) \<Longrightarrow> co_id c' = co_id c \<Longrightarrow> c' = c"
    using wf mem unfolding wfCompanies_def by (meson distinct_map inj_onD)
  then have "map (\<lambda>c'. if co_id c' = co_id c then c else c') (companies s) = companies s"
    by (intro map_idI) auto
  with upsert_existing[OF wf ex, of e] show ?thesis
    unfolding v by simp
qed

lemma upsert_company_times_idem:
  assumes wf: "wfCompanies s"
    and ex: "CompanyRepository_findByHubspotId s (cc_hubspot_id d) = Some c"
    and same: "co_name c = cc_name d" "co_domain c = cc_domain d"
  shows "upsertCompanyTimes e d n s = s"
  by (induction n) (simp_all add: upsert_company_idem[OF wf ex same])

text \<open>
  C1. From a well-formed company table, upserting external id \<open>h\<close> with name \<open>a\<close> and
  then with name \<open>b\<close> succeeds both times and leaves, each time, exactly one company
  with that external id; in the end its name is \<open>b\<close>, and its local id and creation
  timestamp are those the first upsert returned. No two rows share an external id, and
  repeating the second upsert any number of times changes nothing. (When \<open>h\<close> is new
  the first upsert inserts, which needs the identifier drawn for it to be unused.)
\<close>

theorem upsert_company_convergent:
  assumes wf: "wfCompanies s"
    and fresh: "CompanyRepository_findByHubspotId s h = None \<longrightarrow>
                gen_id e (idctr s) \<notin> set (map co_id (companies s))"
  shows "\<exists>c1 s1 c2 s2.
      CompanyRepository_upsertByHubspotId e \<lparr>cc_hubspot_id = h, cc_name = a, cc_domain = d1\<rparr> s
        = (Inr (Some c1), s1)
    \<and> filter (\<lambda>c. co_hubspot_id c = h) (companies s1) = [c1]
    \<and> CompanyRepository_upsertByHubspotId e \<lparr>cc_hubspot_id = h, cc_name = b, cc_domain = d2\<rparr> s1
        = (Inr (Some c2), s2)
    \<and> filter (\<lambda>c. co_hubspot_id c = h) (companies s2) = [c2]
    \<and> co_name c2 = b \<and> co_id c2 = co_id c1 \<and> co_created_at c2 = co_created_at c1
    \<and> distinct (map co_hubspot_id (companies s2))
    \<and> (\<forall>n. upsertCompanyTimes e \<lparr>cc_hubspot_id = h, cc_name = b, cc_domain = d2\<rparr> n s2 = s2)"
proof -
  let ?dA = "\<lparr>cc_hubspot_id = h, cc_name = a, cc_domain = d1\<rparr>"
  let ?dB = "\<lparr>cc_hubspot_id = h, cc_name = b, cc_domain = d2\<rparr>"
  from upsert_company_result[of s ?dA e] wf fresh
  obtain c1 s1 where r1: "CompanyRepository_upsertByHubspotId e ?dA s = (Inr (Some c1), s1)"
    and wf1: "wfCompanies s1"
    and f1: "CompanyRepository_findByHubspotId s1 h = Some c1"
    by auto
  from upsert_company_result[of s1 ?dB e] wf1 f1
  obtain c2 s2 where r2: "CompanyRepository_upsertByHubspotId e ?dB s1 = (Inr (Some c2), s2)"
    and wf2: "wfCompanies s2"
    and f2: "CompanyRepository_findByHubspotId s2 h = Some c2"
    and vals: "co_name c2 = b" "co_domain c2 = d2" "co_id c2 = co_id c1"
      "co_created_at c2 = co_created_at c1"
    by auto
  from f2 have mem: "c2 \<in> set (companies s2)" and hid: "co_hubspot_id c2 = h"
    by (auto simp: CompanyRepository_findByHubspotId_def dest: find_Some_mem)
  have one: "filter (\<lambda>c. co_hubspot_id c = h) (companies s2) = [c2]"
    using filter_key_distinct[of co_hubspot_id "companies s2" c2] wf2 mem hid
    by (simp add: wfCompanies_def)
  from f1 have mem1: "c1 \<in> set (companies s1)" and hid1: "co_hubspot_id c1 = h"
    by (auto simp: CompanyRepository_findByHubspotId_def dest: find_Some_mem)
  have one1: "filter (\<lambda>c. co_hubspot_id c = h) (companies s1) = [c1]"
    using filter_key_distinct[of co_hubspot_id "companies s1" c1] wf1 mem1 hid1
    by (simp add: wfCompanies_def)
  have rep: "\<forall>n. upsertCompanyTimes e ?dB n s2 = s2"
    using upsert_company_times_idem[of s2 ?dB c2 e] wf2 f2 vals by simp
  show ?thesis
    using r1 r2 one one1 vals wf2 rep by (simp add: wfCompanies_def)
qed

theorem upsert_company_convergent_witness:
  "wfCompanies emptySys
   \<and> gen_id sampleEnv (idctr emptySys) \<notin> set (map co_id (companies emptySys))
   \<and> (\<exists>c1 s1 c2 s2.
      CompanyRepository_upsertByHubspotId sampleEnv
        \<lparr>cc_hubspot_id = ''hubspot-123'', cc_name = ''A'', cc_domain = ''a.com''\<rparr> emptySys
        = (Inr (Some c1), s1)
    \<and> filter (\<lambda>c. co_hubspot_id c = ''hubspot-123'') (companies s1) = [c1]
    \<and> CompanyRepository_upsertByHubspotId sampleEnv
        \<lparr>cc_hubspot_id = ''hubspot-123'', cc_name = ''B'', cc_domain = ''b.com''\<rparr> s1
        = (Inr (Some c2), s2)
    \<and> filter (\<lambda>c. co_hubspot_id c = ''hubspot-123'') (companies s2) = [c2]
    \<and> co_name c2 = ''B'' \<and> co_id c2 = co_id c1 \<and> co_created_at c2 = co_created_at c1
    \<and> distinct (map co_hubspot_id (companies s2))
    \<and> (\<forall>n. upsertCompanyTimes sampleEnv
          \<lparr>cc_hubspot_id = ''hubspot-123'', cc_name = ''B'', cc_domain = ''b.com''\<rparr> n s2 = s2))"
proof -
  have wf: "wfCompanies emptySys"
    by (simp add: wfCompanies_def emptySys_def)
  have fr: "gen_id sampleEnv (idctr emptySys) \<notin> set (map co_id (companies emptySys))"
    by (simp add: emptySys_def)
  from upsert_company_convergent[OF wf, of "''hubspot-123''" sampleEnv "''A''" "''a.com''" "''B''" "''b.com''"] fr wf
  show ?thesis by blast
qed

section \<open>The company phase\<close>

lemma company_upsert_frame:
  "CompanyRepository_upsertByHubspotId e d s = (r, s') \<Longrightarrow>
   contacts s' = contacts s \<and> syncStatus s' = syncStatus s \<and> warnings s' = warnings s"
  by (auto simp: CompanyRepository_upsertByHubspotId_def CompanyRepository_update_def
      CompanyRepository_create_def generateId_def getCurrentTimestamp_def Let_def
      split: option.splits sum.splits if_splits prod.splits)

lemma company_service_upsert_frame:
  "CompanyService_upsertCompanyByHubspotId e d s = (r, s') \<Longrightarrow>
   contacts s' = contacts s \<and> syncStatus s' = syncStatus s \<and> warnings s' = warnings s"
  unfolding CompanyService_upsertCompanyByHubspotId_def
  by (auto split: prod.splits sum.splits dest: company_upsert_frame)

lemma contact_upsert_frame:
  "ContactRepository_upsertByHubspotId e d s = (r, s') \<Longrightarrow>
   companies s' = companies s \<and> syncStatus s' = syncStatus s \<and> warnings s' = warnings s"
  by (auto simp: ContactRepository_upsertByHubspotId_def ContactRepository_update_def
      ContactRepository_create_def generateId_def getCurrentTimestamp_def Let_def
      split: option.splits sum.splits if_splits prod.splits)

lemma contact_service_upsert_frame:
  "ContactService_upsertContactByHubspotId e d s = (r, s') \<Longrightarrow>
   companies s' = companies s \<and> syncStatus s' = syncStatus s \<and> warnings s' = warnings s"
  unfolding ContactService_upsertContactByHubspotId_def
  by (auto split: prod.splits sum.splits dest: contact_upsert_frame)

lemma transform_company_nonempty:
  "cc_name (transformHubspotCompany h) \<noteq> [] \<and> cc_domain (transformHubspotCompany h) \<noteq> []"
  by (simp add: transformHubspotCompany_def Let_def)

lemma syncCompany_upsert:
  "syncCompany e h s =
     (case CompanyService_upsertCompanyByHubspotId e (transformHubspotCompany h) s of
        (Inr c, s') \<Rightarrow>
          s'\<lparr>syncStatus := (syncStatus s')
               \<lparr>companiesProcessed := Suc (companiesProcessed (syncStatus s'))\<rparr>\<rparr>
      | (Inl er, s') \<Rightarrow>
          pushError (''Failed to sync company '' @ hco_id h @ '': '' @ formatError er) s')"
  using transform_company_nonempty[of h] by (simp add: syncCompany_def Let_def)

lemma syncCompany_account:
  "warnings (syncCompany e h s) = warnings s
   \<and> companiesProcessed (syncStatus (syncCompany e h s)) + length (errors (syncStatus (syncCompany e h s)))
     = Suc (companiesProcessed (syncStatus s) + length (errors (syncStatus s)))"
proof (cases "CompanyService_upsertCompanyByHubspotId e (transformHubspotCompany h) s")
  case (Pair r s')
  from company_service_upsert_frame[OF Pair] show ?thesis
    unfolding syncCompany_upsert Pair by (cases r) (simp_all add: pushError_def)
qed

lemma fold_syncCompany_account:
  "warnings (fold (syncCompany e) hs s) = warnings s
   \<and> companiesProcessed (syncStatus (fold (syncCompany e) hs s))
       + length (errors (syncStatus (fold (syncCompany e) hs s)))
     = companiesProcessed (syncStatus s) + length (errors (syncStatus s)) + length hs"
  by (induction hs arbitrary: s) (simp_all add: syncCompany_account)

section \<open>Starting a run\<close>

text \<open>
  C3. While a run is in progress, \<^verbatim>\<open>syncCrmData\<close> fails with
  \<^verbatim>\<open>AppError(..., 409)\<close> and the whole state, the status of the active run included,
  is what it was.
\<close>

theorem running_sync_rejected:
  "isRunning (syncStatus s) \<Longrightarrow>
   syncCrmData e srv s = Some (Inl (AppError ''ETL sync is already running'' 409), s)"
  by (simp add: syncCrmData_def)

theorem running_sync_rejected_witness:
  "isRunning (syncStatus runningSys)
   \<and> syncCrmData sampleEnv downServer runningSys
       = Some (Inl (AppError ''ETL sync is already running'' 409), runningSys)
   \<and> syncStatus runningSys = \<lparr>isRunning = True, startedAt = Some ''t'',
        completedAt = None, contactsProcessed = 2, companiesProcessed = 3,
        errors = [''Failed to sync company 7: Failed to upsert company'']\<rparr>"
proof -
  have r: "isRunning (syncStatus runningSys)"
    by (simp add: runningSys_def)
  from running_sync_rejected[OF r, of sampleEnv downServer] r show ?thesis
    by (simp add: runningSys_def)
qed

text \<open>
  C7. When no run is in progress and the health check answers false, the run ends before
  either phase: the call fails with \<^verbatim>\<open>AppError(..., 502)\<close>, both counters are zero,
  the error list holds exactly that one message, the completion time is set, and the
  tables are untouched. The health check itself always returns a boolean: false exactly
  when its request is rejected.
\<close>

theorem unhealthy_run_fails:
  assumes idle: "\<not> isRunning (syncStatus s)" and down: "healthCheck srv = Inr False"
  shows "syncCrmData e srv s =
           Some (Inl (AppError ''HubSpot API is not accessible'' 502),
                 s\<lparr>clock := Suc (Suc (clock s)),
                   syncStatus := \<lparr>isRunning = False, startedAt = Some (now e (clock s)),
                     completedAt = Some (now e (Suc (clock s))), contactsProcessed = 0,
                     companiesProcessed = 0, errors = [''HubSpot API is not accessible'']\<rparr>\<rparr>)
         \<and> (\<forall>srv'. healthCheck srv' =
               Inr (case contactsEndpoint srv' 0 [(''limit'', ''1''), (''properties'', ''email'')] of
                      Inl er \<Rightarrow> False | Inr response \<Rightarrow> True))"
proof -
  have ph: "syncPhases e srv (startRun e s)
      = Some (Inl (AppError ''HubSpot API is not accessible'' 502), startRun e s)"
    using down by (simp add: syncPhases_def)
  have run: "syncCrmData e srv s =
           Some (Inl (AppError ''HubSpot API is not accessible'' 502),
                 s\<lparr>clock := Suc (Suc (clock s)),
                   syncStatus := \<lparr>isRunning = False, startedAt = Some (now e (clock s)),
                     completedAt = Some (now e (Suc (clock s))), contactsProcessed = 0,
                     companiesProcessed = 0, errors = [''HubSpot API is not accessible'']\<rparr>\<rparr>)"
    using idle unfolding syncCrmData_def ph
    by (simp add: startRun_def getCurrentTimestamp_def pushError_def)
  have hc: "\<forall>srv'. healthCheck srv' =
               Inr (case contactsEndpoint srv' 0 [(''limit'', ''1''), (''properties'', ''email'')] of
                      Inl er \<Rightarrow> False | Inr response \<Rightarrow> True)"
    by (simp add: healthCheck_def split: sum.splits)
  from run hc show ?thesis by blast
qed

theorem unhealthy_run_fails_witness:
  "\<not> isRunning (syncStatus emptySys) \<and> healthCheck downServer = Inr False
   \<and> syncCrmData sampleEnv downServer emptySys =
           Some (Inl (AppError ''HubSpot API is not accessible'' 502),
                 \<lparr>companies = [], contacts = [],
                  syncStatus = \<lparr>isRunning = False, startedAt = Some ''t'',
                     completedAt = Some ''ti'', contactsProcessed = 0,
                     companiesProcessed = 0, errors = [''HubSpot API is not accessible'']\<rparr>,
                  warnings = [], idctr = 0, clock = 2\<rparr>)"
proof -
  have idle: "\<not> isRunning (syncStatus emptySys)"
    by (simp add: emptySys_def idleStatus_def)
  have down: "healthCheck downServer = Inr False"
    by (simp add: healthCheck_def downServer_def)
  from unhealthy_run_fails[OF idle down, of sampleEnv] idle down show ?thesis
    by (simp add: emptySys_def sampleEnv_def numeral_2_eq_2)
qed

section \<open>The returned status\<close>

text \<open>Assignments to scalar properties of the returned object stay with the caller.\<close>

lemma scalar_ops_heap:
  "list_all scalarOp ops \<Longrightarrow> snd (fold callerStep ops (obj, h)) = h"
proof (induction ops arbitrary: obj)
  case Nil
  then show ?case by simp
next
  case (Cons c ops)
  then show ?case by (cases c) (simp_all add: scalarOp_def)
qed

lemma scalar_assignments_isolated:
  "list_all scalarOp ops \<Longrightarrow> internalStatus (callerMutates ops h) = internalStatus h"
  by (simp add: callerMutates_def scalar_ops_heap)

text \<open>
  C9. The object \<^verbatim>\<open>getSyncStatus\<close> returns refers to the array the service holds:
  a \<^verbatim>\<open>push\<close> on the returned object's \<open>errors\<close> appends to the status of the service,
  so the internal status is not what it was, and the object a later call returns shows
  the pushed entry. On a new service, after the caller pushed \<open>x\<close>, the service's own
  error list is \<open>[x]\<close>.
\<close>

theorem getSyncStatus_shares_errors:
  "obj_errors (getSyncStatus h) = obj_errors (this_syncStatus h)
   \<and> errors (internalStatus (callerMutates [ErrorsPush x] h)) = errors (internalStatus h) @ [x]
   \<and> internalStatus (callerMutates [ErrorsPush x] h) \<noteq> internalStatus h
   \<and> arrays (callerMutates [ErrorsPush x] h)
         (obj_errors (getSyncStatus (callerMutates [ErrorsPush x] h)))
       = arrays h (obj_errors (getSyncStatus h)) @ [x]
   \<and> internalStatus (callerMutates [ErrorsPush ''x''] freshHeap)
       = \<lparr>isRunning = False, startedAt = None, completedAt = None, contactsProcessed = 0,
          companiesProcessed = 0, errors = [''x'']\<rparr>
   \<and> internalStatus freshHeap
       = \<lparr>isRunning = False, startedAt = None, completedAt = None, contactsProcessed = 0,
          companiesProcessed = 0, errors = []\<rparr>"
proof -
  have e: "errors (internalStatus (callerMutates [ErrorsPush x] h)) = errors (internalStatus h) @ [x]"
    by (simp add: callerMutates_def getSyncStatus_def internalStatus_def Let_def)
  then have "errors (internalStatus (callerMutates [ErrorsPush x] h)) \<noteq> errors (internalStatus h)"
    by simp
  then have "internalStatus (callerMutates [ErrorsPush x] h) \<noteq> internalStatus h"
    by metis
  with e show ?thesis
    by (simp add: callerMutates_def getSyncStatus_def internalStatus_def freshHeap_def Let_def)
qed

section \<open>Contact upsert\<close>

lemma contact_update_existing:
  assumes wf: "wfContacts s"
    and ex: "ContactRepository_findByHubspotId s (cn_hubspot_id d) = Some old"
    and em: "emailFree s (ct_id old) (cn_email d)"
    and fk: "foreignKeyOk (companies s) (cn_company_id d)"
  shows "ContactRepository_update (ct_id old) (asUpdateContact d) s =
          (Inr (Some (setContactFields (asUpdateContact d) old)),
           s\<lparr>contacts := map (\<lambda>c. if ct_id c = ct_id old
               then setContactFields (asUpdateContact d) old else c) (contacts s)\<rparr>)"
proof -
  let ?v = "setContactFields (asUpdateContact d) old"
  from ex have mem: "old \<in> set (contacts s)" and hid: "ct_hubspot_id old = cn_hubspot_id d"
    by (auto simp: ContactRepository_findByHubspotId_def dest: find_Some_mem)
  from wf have d1: "distinct (map ct_id (contacts s))"
    and d2: "distinct (map ct_hubspot_id (contacts s))"
    by (auto simp: wfContacts_def)
  have f1: "ContactRepository_findById s (ct_id old) = Some old"
    unfolding ContactRepository_findById_def using find_distinct_key[OF d1 mem] .
  have nohid: "\<not> (\<exists>c' \<in> set (contacts s). ct_id c' \<noteq> ct_id old \<and> ct_hubspot_id c' = cn_hubspot_id d)"
    using d2 mem hid by (metis distinct_map inj_onD)
  have noem: "\<not> (\<exists>c' \<in> set (contacts s). ct_id c' \<noteq> ct_id old \<and> ct_email c' = cn_email d)"
    using em by (auto simp: emailFree_def list_all_iff)
  have nofk: "\<not> (case cn_company_id d of None \<Rightarrow> False | Some k \<Rightarrow> \<not> foreignKeyOk (companies s) (Some k))"
    using fk by (auto split: option.splits)
  have same: "map (\<lambda>c. if ct_id c = ct_id old then setContactFields (asUpdateContact d) c else c) (contacts s)
      = map (\<lambda>c. if ct_id c = ct_id old then ?v else c) (contacts s)"
  proof (rule map_cong[OF refl])
    fix c assume "c \<in> set (contacts s)"
    then have "ct_id c = ct_id old \<Longrightarrow> c = old"
      using d1 mem by (meson distinct_map inj_onD)
    then show "(if ct_id c = ct_id old then setContactFields (asUpdateContact d) c else c)
       = (if ct_id c = ct_id old then ?v else c)"
      by auto
  qed
  have rows: "updateContactRows (companies s) (contacts s) (ct_id old) (asUpdateContact d) =
     Inr (map (\<lambda>c. if ct_id c = ct_id old then ?v else c) (contacts s))"
    unfolding updateContactRows_def same using nohid noem nofk
    by (simp add: asUpdateContact_def)
  have vid: "ct_id ?v = ct_id old" by (simp add: setContactFields_def)
  have f2: "find (\<lambda>c. ct_id c = ct_id old) (map (\<lambda>c. if ct_id c = ct_id old then ?v else c) (contacts s))
      = Some ?v"
    using mem vid by (intro find_map_upd[where x=old]) auto
  have defined: "un_hubspot_id (asUpdateContact d) \<noteq> None"
    by (simp add: asUpdateContact_def)
  show ?thesis
    using f1 rows f2 defined
    by (auto simp: ContactRepository_update_def ContactRepository_findById_def)
qed

lemma contact_upsert_existing:
  assumes wf: "wfContacts s"
    and ex: "ContactRepository_findByHubspotId s (cn_hubspot_id d) = Some old"
    and em: "emailFree s (ct_id old) (cn_email d)"
    and fk: "foreignKeyOk (companies s) (cn_company_id d)"
  shows "ContactRepository_upsertByHubspotId e d s =
          (Inr (Some (setContactFields (asUpdateContact d) old)),
           s\<lparr>contacts := map (\<lambda>c. if ct_id c = ct_id old
               then setContactFields (asUpdateContact d) old else c) (contacts s)\<rparr>)"
  using contact_update_existing[OF wf ex em fk] ex
  by (simp add: ContactRepository_upsertByHubspotId_def)

lemma contact_upsert_absent:
  assumes absent: "ContactRepository_findByHubspotId s (cn_hubspot_id d) = None"
    and fresh: "gen_id e (idctr s) \<notin> set (map ct_id (contacts s))"
    and em: "cn_email d \<notin> set (map ct_email (contacts s))"
    and fk: "foreignKeyOk (companies s) (orNull (cn_company_id d))"
  shows "ContactRepository_upsertByHubspotId e d s =
     (Inr (Some \<lparr>ct_id = gen_id e (idctr s), ct_hubspot_id = cn_hubspot_id d,
            ct_firstname = cn_firstname d, ct_lastname = cn_lastname d, ct_email = cn_email d,
            ct_company_id = cn_company_id d, ct_created_at = now e (clock s)\<rparr>),
      s\<lparr>idctr := Suc (idctr s), clock := Suc (clock s),
        contacts := contacts s @ [\<lparr>ct_id = gen_id e (idctr s), ct_hubspot_id = cn_hubspot_id d,
            ct_firstname = orNull (cn_firstname d), ct_lastname = orNull (cn_lastname d),
            ct_email = cn_email d, ct_company_id = orNull (cn_company_id d),
            ct_created_at = now e (clock s)\<rparr>]\<rparr>)"
proof -
  from absent have "cn_hubspot_id d \<notin> set (map ct_hubspot_id (contacts s))"
    by (simp add: ContactRepository_findByHubspotId_def find_None_notin)
  with fresh em fk absent show ?thesis
    by (simp add: ContactRepository_upsertByHubspotId_def ContactRepository_create_def
        generateId_def getCurrentTimestamp_def insertContact_def Let_def)
qed

lemma wfContacts_after_update:
  assumes wf: "wfContacts s" and mem: "old \<in> set (contacts s)"
    and v: "ct_id v = ct_id old" "ct_hubspot_id v = ct_hubspot_id old"
    and em: "emailFree s (ct_id old) (ct_email v)"
  shows "wfContacts (s\<lparr>contacts := map (\<lambda>c. if ct_id c = ct_id old then v else c) (contacts s)\<rparr>)"
proof -
  let ?f = "\<lambda>c. if ct_id c = ct_id old then v else c"
  have only: "\<And>c. c \<in> set (contacts s) \<Longrightarrow> ct_id c = ct_id old \<Longrightarrow> c = old"
    using wf mem unfolding wfContacts_def by (meson distinct_map inj_onD)
  have i: "map ct_id (map ?f (contacts s)) = map ct_id (contacts s)"
    using v by (auto intro!: map_cong simp: comp_def)
  have h: "map ct_hubspot_id (map ?f (contacts s)) = map ct_hubspot_id (contacts s)"
    using v only by (auto intro!: map_cong simp: comp_def)
  have m: "distinct (map ct_email (map ?f (contacts s)))"
  proof -
    have dm: "distinct (map ct_email (contacts s))" using wf by (simp add: wfContacts_def)
    have "inj_on (ct_email \<circ> ?f) (set (contacts s))"
    proof (rule inj_onI)
      fix x y assume x: "x \<in> set (contacts s)" and y: "y \<in> set (contacts s)"
        and eq: "(ct_email \<circ> ?f) x = (ct_email \<circ> ?f) y"
      have inj: "inj_on ct_email (set (contacts s))" using dm by (simp add: distinct_map)
      show "x = y"
      proof (cases "ct_id x = ct_id old")
        case True
        note tx = True
        show ?thesis
        proof (cases "ct_id y = ct_id old")
          case True
          with tx only x y show ?thesis by metis
        next
          case False
          with tx eq have "ct_email y = ct_email v" by simp
          with em y have "ct_id y = ct_id old" by (auto simp: emailFree_def list_all_iff)
          with False show ?thesis by simp
        qed
      next
        case False
        note fx = False
        show ?thesis
        proof (cases "ct_id y = ct_id old")
          case True
          with fx eq have "ct_email x = ct_email v" by simp
          with em x have "ct_id x = ct_id old" by (auto simp: emailFree_def list_all_iff)
          with fx show ?thesis by simp
        next
          case False
          with fx eq have "ct_email x = ct_email y" by simp
          with inj x y show ?thesis by (auto dest: inj_onD)
        qed
      qed
    qed
    moreover have "distinct (contacts s)" using dm by (rule distinct_map[THEN iffD1, THEN conjunct1])
    ultimately show ?thesis by (simp add: distinct_map comp_def)
  qed
  show ?thesis using wf i h m by (simp add: wfContacts_def del: map_map)
qed




section \<open>The contact phase\<close>

lemma transform_contact_email:
  "cn_email (transformHubspotContact s h) = cleanString (hct_email h)
   \<and> cn_hubspot_id (transformHubspotContact s h) = hct_id h"
  by (simp add: transformHubspotContact_def Let_def)

lemma syncContact_malformed:
  "\<not> wellFormedContact h \<Longrightarrow> syncContact e h s = logWarn (skipContactLine h) s"
  by (simp add: syncContact_def Let_def transform_contact_email wellFormedContact_def
      skipContactLine_def)

lemma syncContact_wellformed:
  "wellFormedContact h \<Longrightarrow> syncContact e h s =
     (case ContactService_upsertContactByHubspotId e (transformHubspotContact s h) s of
        (Inr c, s') \<Rightarrow>
          s'\<lparr>syncStatus := (syncStatus s')
               \<lparr>contactsProcessed := Suc (contactsProcessed (syncStatus s'))\<rparr>\<rparr>
      | (Inl er, s') \<Rightarrow>
          pushError (''Failed to sync contact '' @ hct_id h @ '': '' @ formatError er) s')"
  by (simp add: syncContact_def Let_def transform_contact_email wellFormedContact_def)

lemma syncContact_account:
  assumes "wellFormedContact h"
  shows "warnings (syncContact e h s) = warnings s
   \<and> contactsProcessed (syncStatus (syncContact e h s)) + length (errors (syncStatus (syncContact e h s)))
     = Suc (contactsProcessed (syncStatus s) + length (errors (syncStatus s)))"
proof (cases "ContactService_upsertContactByHubspotId e (transformHubspotContact s h) s")
  case (Pair r s')
  from contact_service_upsert_frame[OF Pair] show ?thesis
    unfolding syncContact_wellformed[OF assms] Pair by (cases r) (simp_all add: pushError_def)
qed

lemma fold_syncContact_account:
  "list_all wellFormedContact hs \<Longrightarrow>
   warnings (fold (syncContact e) hs s) = warnings s
   \<and> contactsProcessed (syncStatus (fold (syncContact e) hs s))
       + length (errors (syncStatus (fold (syncContact e) hs s)))
     = contactsProcessed (syncStatus s) + length (errors (syncStatus s)) + length hs"
  by (induction hs arbitrary: s) (simp_all add: syncContact_account)

lemma syncContact_companies:
  "companies (syncContact e h s) = companies s
   \<and> companiesProcessed (syncStatus (syncContact e h s)) = companiesProcessed (syncStatus s)"
proof (cases "ContactService_upsertContactByHubspotId e (transformHubspotContact s h) s")
  case (Pair r s')
  from contact_service_upsert_frame[OF Pair] show ?thesis
    unfolding syncContact_def Let_def Pair
    by (cases r) (simp_all add: pushError_def logWarn_def)
qed

lemma fold_syncContact_companies:
  "companies (fold (syncContact e) hs s) = companies s
   \<and> companiesProcessed (syncStatus (fold (syncContact e) hs s)) = companiesProcessed (syncStatus s)"
  by (induction hs arbitrary: s) (simp_all add: syncContact_companies)

lemma syncCompany_contacts:
  "contacts (syncCompany e h s) = contacts s
   \<and> contactsProcessed (syncStatus (syncCompany e h s)) = contactsProcessed (syncStatus s)"
proof (cases "CompanyService_upsertCompanyByHubspotId e (transformHubspotCompany h) s")
  case (Pair r s')
  from company_service_upsert_frame[OF Pair] show ?thesis
    unfolding syncCompany_upsert Pair
    by (cases r) (simp_all add: pushError_def)
qed

lemma fold_syncCompany_contacts:
  "contacts (fold (syncCompany e) hs s) = contacts s
   \<and> contactsProcessed (syncStatus (fold (syncCompany e) hs s)) = contactsProcessed (syncStatus s)"
  by (induction hs arbitrary: s) (simp_all add: syncCompany_contacts)

text \<open>A run whose health check and both fetches succeed.\<close>

lemma sync_completed:
  assumes idle: "\<not> isRunning (syncStatus s)" and up: "healthCheck srv = Inr True"
    and cs: "getAllCompanies srv = Some (Inr hcs, rq)"
    and ts: "getAllContacts srv = Some (Inr hs, rq')"
  shows "syncCrmData e srv s =
     (let fin = fold (syncContact e) hs (fold (syncCompany e) hcs (startRun e s))
      in Some (Inr \<lparr>message = ''Sync completed successfully'',
                    contactsSynced = contactsProcessed (syncStatus fin),
                    companiesSynced = companiesProcessed (syncStatus fin),
                    syncedAt = now e (clock fin)\<rparr>,
               fin\<lparr>clock := Suc (clock fin),
                   syncStatus := (syncStatus fin)\<lparr>completedAt := Some (now e (clock fin)),
                                                   isRunning := False\<rparr>\<rparr>))"
proof -
  have "syncPhases e srv (startRun e s)
      = Some (Inr (), fold (syncContact e) hs (fold (syncCompany e) hcs (startRun e s)))"
    using up cs ts by (simp add: syncPhases_def syncCompanies_def syncContacts_def)
  then show ?thesis
    using idle by (simp add: syncCrmData_def getCurrentTimestamp_def Let_def)
qed

text \<open>
  C5, as stated, fails: three fetched contacts of which exactly one (the second) has a
  blank email. The run completes, but the third record has the email of the first under
  another external id, its insert violates the \<open>UNIQUE\<close> constraint on \<open>email\<close>, and
  the counter is 1, not 2. The one entry of the error list is for the third record; the
  malformed record has none, only a warning line.
\<close>

theorem one_malformed_of_three:
  "getAllContacts dupServer = Some (Inr [ann101, bob102, ann103], [contactsParams])
   \<and> map wellFormedContact [ann101, bob102, ann103] = [True, False, True]
   \<and> syncCrmData sampleEnv dupServer emptySys =
       Some (Inr \<lparr>message = ''Sync completed successfully'', contactsSynced = 1,
                  companiesSynced = 0, syncedAt = ''tiii''\<rparr>,
             \<lparr>companies = [],
              contacts = [\<lparr>ct_id = ''id'', ct_hubspot_id = ''101'', ct_firstname = Some ''Ann'',
                           ct_lastname = None, ct_email = ''ann@x.io'', ct_company_id = None,
                           ct_created_at = ''ti''\<rparr>],
              syncStatus = \<lparr>isRunning = False, startedAt = Some ''t'',
                             completedAt = Some ''tiii'', contactsProcessed = 1,
                             companiesProcessed = 0,
                             errors = [''Failed to sync contact 103: Failed to upsert contact'']\<rparr>,
              warnings = [''Skipping contact 102 - missing email''], idctr = 2, clock = 4\<rparr>)"
  by code_simp

text \<open>
  C5, amended. For a run over fetched contacts \<open>pre @ bad # post\<close> of which exactly
  \<open>bad\<close> is malformed: the run completes; the loop goes on over \<open>post\<close> from the state
  the skip left; the malformed record adds one warning line and nothing to the error list;
  and the contacts counter plus the number of per-record errors of the contact phase is
  \<open>N - 1\<close>, so the counter is \<open>N - 1\<close> exactly when no upsert of another record failed.
\<close>

theorem one_malformed_contact_isolated:
  assumes idle: "\<not> isRunning (syncStatus s)" and up: "healthCheck srv = Inr True"
    and cs: "getAllCompanies srv = Some (Inr hcs, rq)"
    and ts: "getAllContacts srv = Some (Inr (pre @ bad # post), rq')"
    and wfpre: "list_all wellFormedContact pre" and bad: "\<not> wellFormedContact bad"
    and wfpost: "list_all wellFormedContact post"
  shows "let mid = fold (syncCompany e) hcs (startRun e s);
             skipped = logWarn (skipContactLine bad) (fold (syncContact e) pre mid);
             fin = fold (syncContact e) post skipped
         in \<exists>resp s'. syncCrmData e srv s = Some (Inr resp, s')
              \<and> \<not> isRunning (syncStatus s') \<and> completedAt (syncStatus s') = Some (syncedAt resp)
              \<and> contactsSynced resp = contactsProcessed (syncStatus s')
              \<and> contacts s' = contacts fin
              \<and> contactsProcessed (syncStatus s') = contactsProcessed (syncStatus fin)
              \<and> errors (syncStatus s') = errors (syncStatus fin)
              \<and> errors (syncStatus skipped) = errors (syncStatus (fold (syncContact e) pre mid))
              \<and> warnings s' = warnings s @ [skipContactLine bad]
              \<and> contactsProcessed (syncStatus s') + length (errors (syncStatus s'))
                  = length (errors (syncStatus mid)) + length pre + length post
              \<and> (contactsProcessed (syncStatus s') = length (pre @ bad # post) - 1
                  \<longleftrightarrow> length (errors (syncStatus s')) = length (errors (syncStatus mid)))"
proof -
  define mid where "mid = fold (syncCompany e) hcs (startRun e s)"
  define before where "before = fold (syncContact e) pre mid"
  define skipped where "skipped = logWarn (skipContactLine bad) before"
  define fin where "fin = fold (syncContact e) post skipped"
  have fin_eq: "fold (syncContact e) (pre @ bad # post) mid = fin"
    by (simp add: fin_def skipped_def before_def syncContact_malformed[OF bad])
  have w0: "warnings (startRun e s) = warnings s"
    and c0: "contactsProcessed (syncStatus (startRun e s)) = 0"
    by (simp_all add: startRun_def getCurrentTimestamp_def)
  have wmid: "warnings mid = warnings s"
    using fold_syncCompany_account[of e hcs "startRun e s"] w0 by (simp add: mid_def)
  have cmid: "contactsProcessed (syncStatus mid) = 0"
    using fold_syncCompany_contacts[of e hcs "startRun e s"] c0 by (simp add: mid_def)
  have a1: "warnings before = warnings mid"
    "contactsProcessed (syncStatus before) + length (errors (syncStatus before))
       = contactsProcessed (syncStatus mid) + length (errors (syncStatus mid)) + length pre"
    using fold_syncContact_account[OF wfpre, of e mid] by (simp_all add: before_def)
  have a2: "warnings skipped = warnings before @ [skipContactLine bad]"
    "syncStatus skipped = syncStatus before"
    by (simp_all add: skipped_def logWarn_def)
  have a3: "warnings fin = warnings skipped"
    "contactsProcessed (syncStatus fin) + length (errors (syncStatus fin))
       = contactsProcessed (syncStatus skipped) + length (errors (syncStatus skipped)) + length post"
    using fold_syncContact_account[OF wfpost, of e skipped] by (simp_all add: fin_def)
  have wfin: "warnings fin = warnings s @ [skipContactLine bad]"
    using a1 a2 a3 wmid by simp
  have total: "contactsProcessed (syncStatus fin) + length (errors (syncStatus fin))
       = length (errors (syncStatus mid)) + length pre + length post"
    using a1 a2 a3 cmid by simp
  let ?resp = "\<lparr>message = ''Sync completed successfully'',
                  contactsSynced = contactsProcessed (syncStatus fin),
                  companiesSynced = companiesProcessed (syncStatus fin),
                  syncedAt = now e (clock fin)\<rparr>"
  let ?s' = "fin\<lparr>clock := Suc (clock fin),
                 syncStatus := (syncStatus fin)\<lparr>completedAt := Some (now e (clock fin)),
                                                 isRunning := False\<rparr>\<rparr>"
  have run: "syncCrmData e srv s = Some (Inr ?resp, ?s')"
    using sync_completed[OF idle up cs ts, of e] fin_eq by (simp add: mid_def Let_def)
  have "\<exists>resp s'. syncCrmData e srv s = Some (Inr resp, s')
              \<and> \<not> isRunning (syncStatus s') \<and> completedAt (syncStatus s') = Some (syncedAt resp)
              \<and> contactsSynced resp = contactsProcessed (syncStatus s')
              \<and> contacts s' = contacts fin
              \<and> contactsProcessed (syncStatus s') = contactsProcessed (syncStatus fin)
              \<and> errors (syncStatus s') = errors (syncStatus fin)
              \<and> errors (syncStatus skipped) = errors (syncStatus before)
              \<and> warnings s' = warnings s @ [skipContactLine bad]
              \<and> contactsProcessed (syncStatus s') + length (errors (syncStatus s'))
                  = length (errors (syncStatus mid)) + length pre + length post
              \<and> (contactsProcessed (syncStatus s') = length (pre @ bad # post) - 1
                  \<longleftrightarrow> length (errors (syncStatus s')) = length (errors (syncStatus mid)))"
    using run wfin total a2 by (intro exI[of _ ?resp] exI[of _ ?s']) auto
  then show ?thesis
    unfolding Let_def mid_def before_def skipped_def fin_def .
qed

theorem one_malformed_contact_isolated_witness:
  "\<not> isRunning (syncStatus emptySys) \<and> healthCheck okServer = Inr True
   \<and> getAllCompanies okServer
       = Some (Inr [\<lparr>hco_id = ''900'', hco_name = Some ''Acme'', hco_domain = None\<rparr>],
               [companiesParams])
   \<and> getAllContacts okServer = Some (Inr ([ann101] @ bob102 # [eve104]), [contactsParams])
   \<and> list_all wellFormedContact [ann101] \<and> \<not> wellFormedContact bob102
   \<and> list_all wellFormedContact [eve104]
   \<and> (\<exists>resp s'. syncCrmData sampleEnv okServer emptySys = Some (Inr resp, s')
         \<and> contactsSynced resp = 2 \<and> contactsProcessed (syncStatus s') = 2
         \<and> \<not> isRunning (syncStatus s') \<and> completedAt (syncStatus s') = Some (syncedAt resp)
         \<and> errors (syncStatus s') = []
         \<and> warnings s' = [''Skipping contact 102 - missing email'']
         \<and> map ct_hubspot_id (contacts s') = [''101'', ''104''])"
proof -
  have idle: "\<not> isRunning (syncStatus emptySys)"
    by (simp add: emptySys_def idleStatus_def)
  have up: "healthCheck okServer = Inr True"
    by code_simp
  have cs: "getAllCompanies okServer
       = Some (Inr [\<lparr>hco_id = ''900'', hco_name = Some ''Acme'', hco_domain = None\<rparr>],
               [companiesParams])"
    by code_simp
  have ts: "getAllContacts okServer = Some (Inr ([ann101] @ bob102 # [eve104]), [contactsParams])"
    by code_simp
  have w1: "list_all wellFormedContact [ann101]" and b: "\<not> wellFormedContact bob102"
    and w2: "list_all wellFormedContact [eve104]"
    by code_simp+
  have run: "syncCrmData sampleEnv okServer emptySys =
       Some (Inr \<lparr>message = ''Sync completed successfully'', contactsSynced = 2,
                  companiesSynced = 1, syncedAt = ''tiiii''\<rparr>,
             \<lparr>companies = [\<lparr>co_id = ''id'', co_hubspot_id = ''900'', co_name = ''Acme'',
                            co_domain = ''unknown.com'', co_created_at = ''ti''\<rparr>],
              contacts = [\<lparr>ct_id = ''idi'', ct_hubspot_id = ''101'', ct_firstname = Some ''Ann'',
                           ct_lastname = None, ct_email = ''ann@x.io'', ct_company_id = None,
                           ct_created_at = ''tii''\<rparr>,
                          \<lparr>ct_id = ''idii'', ct_hubspot_id = ''104'', ct_firstname = None,
                           ct_lastname = Some ''Eve'', ct_email = ''eve@x.io'',
                           ct_company_id = Some ''id'', ct_created_at = ''tiii''\<rparr>],
              syncStatus = \<lparr>isRunning = False, startedAt = Some ''t'',
                             completedAt = Some ''tiiii'', contactsProcessed = 2,
                             companiesProcessed = 1, errors = []\<rparr>,
              warnings = [''Skipping contact 102 - missing email''], idctr = 3, clock = 5\<rparr>)"
    by code_simp
  from one_malformed_contact_isolated[OF idle up cs ts w1 b w2, of sampleEnv]
  obtain resp s' where r: "syncCrmData sampleEnv okServer emptySys = Some (Inr resp, s')"
    and ended: "\<not> isRunning (syncStatus s')" "completedAt (syncStatus s') = Some (syncedAt resp)"
      "contactsSynced resp = contactsProcessed (syncStatus s')"
    and w: "warnings s' = warnings emptySys @ [skipContactLine bob102]"
    unfolding Let_def by blast
  from r run have vals: "contactsProcessed (syncStatus s') = 2" "errors (syncStatus s') = []"
    "map ct_hubspot_id (contacts s') = [''101'', ''104'']"
    by auto
  have line: "warnings emptySys @ [skipContactLine bob102] = [''Skipping contact 102 - missing email'']"
    by (simp add: emptySys_def skipContactLine_def bob102_def)
  from r ended w vals line idle up cs ts w1 b w2 show ?thesis
    by (intro conjI exI[of _ resp] exI[of _ s']) simp_all
qed

section \<open>The company phase\<close>

lemma syncCompany_as_upsert:
  "syncCompany e =
     (\<lambda>h t. case CompanyService_upsertCompanyByHubspotId e (transformHubspotCompany h) t of
               (Inr c, t') \<Rightarrow>
                 t'\<lparr>syncStatus := (syncStatus t')
                      \<lparr>companiesProcessed := Suc (companiesProcessed (syncStatus t'))\<rparr>\<rparr>
             | (Inl er, t') \<Rightarrow>
                 pushError (''Failed to sync company '' @ hco_id h @ '': '' @ formatError er) t')"
  by (intro ext) (rule syncCompany_upsert)

text \<open>
  C6. The transformed company takes the placeholder for a name or a domain that is missing
  or empty after trimming, so both are non-empty and the loop body always takes the upsert
  branch. The company phase \<^verbatim>\<open>syncCompanies\<close> is therefore the upsert step run over
  every fetched company in fetch order: it logs no skip, and every fetched company is
  counted either as processed or as a per-record error of its upsert. In a run of
  \<^verbatim>\<open>syncCrmData\<close> whose fetches succeed, the company counter of the response plus the
  number of errors the company phase recorded is the number of fetched companies.
\<close>

theorem company_never_skipped:
  "cc_name (transformHubspotCompany h) =
     (if cleanString (hco_name h) = [] then ''Unknown Company'' else cleanString (hco_name h))
   \<and> cc_domain (transformHubspotCompany h) =
     (if cleanString (hco_domain h) = [] then ''unknown.com'' else cleanString (hco_domain h))
   \<and> cc_name (transformHubspotCompany h) \<noteq> [] \<and> cc_domain (transformHubspotCompany h) \<noteq> []
   \<and> syncCompany e h s =
       (case CompanyService_upsertCompanyByHubspotId e (transformHubspotCompany h) s of
          (Inr c, s') \<Rightarrow>
            s'\<lparr>syncStatus := (syncStatus s')
                 \<lparr>companiesProcessed := Suc (companiesProcessed (syncStatus s'))\<rparr>\<rparr>
        | (Inl er, s') \<Rightarrow>
            pushError (''Failed to sync company '' @ hco_id h @ '': '' @ formatError er) s')
   \<and> warnings (fold (syncCompany e) hs s) = warnings s
   \<and> companiesProcessed (syncStatus (fold (syncCompany e) hs s))
       + length (errors (syncStatus (fold (syncCompany e) hs s)))
     = companiesProcessed (syncStatus s) + length (errors (syncStatus s)) + length hs
   \<and> (getAllCompanies srv = Some (Inr hcs, rq) \<longrightarrow>
        (\<exists>s1. syncCompanies e srv s = Some (Inr (), s1)
           \<and> s1 = fold (\<lambda>h t.
                   case CompanyService_upsertCompanyByHubspotId e (transformHubspotCompany h) t of
                     (Inr c, t') \<Rightarrow>
                       t'\<lparr>syncStatus := (syncStatus t')
                            \<lparr>companiesProcessed := Suc (companiesProcessed (syncStatus t'))\<rparr>\<rparr>
                   | (Inl er, t') \<Rightarrow>
                       pushError (''Failed to sync company '' @ hco_id h @ '': ''
                                  @ formatError er) t') hcs s
           \<and> warnings s1 = warnings s
           \<and> companiesProcessed (syncStatus s1) + length (errors (syncStatus s1))
               = companiesProcessed (syncStatus s) + length (errors (syncStatus s)) + length hcs))
   \<and> (\<not> isRunning (syncStatus s) \<and> healthCheck srv = Inr True
      \<and> getAllCompanies srv = Some (Inr hcs, rq) \<and> getAllContacts srv = Some (Inr hts, rq') \<longrightarrow>
        (\<exists>s1 resp s'. syncCompanies e srv (startRun e s) = Some (Inr (), s1)
           \<and> syncContacts e srv s1 = Some (Inr (), fold (syncContact e) hts s1)
           \<and> syncCrmData e srv s = Some (Inr resp, s')
           \<and> warnings s1 = warnings s
           \<and> companies s' = companies s1
           \<and> companiesSynced resp = companiesProcessed (syncStatus s1)
           \<and> companiesProcessed (syncStatus s') = companiesProcessed (syncStatus s1)
           \<and> companiesSynced resp + length (errors (syncStatus s1)) = length hcs))"
proof -
  have p1: "cc_name (transformHubspotCompany h) =
     (if cleanString (hco_name h) = [] then ''Unknown Company'' else cleanString (hco_name h))"
    and p2: "cc_domain (transformHubspotCompany h) =
     (if cleanString (hco_domain h) = [] then ''unknown.com'' else cleanString (hco_domain h))"
    by (simp_all add: transformHubspotCompany_def Let_def)
  note p3 = transform_company_nonempty[of h]
  note p4 = syncCompany_upsert[of e h s]
  note p5 = fold_syncCompany_account[of e hs s]
  have p6: "getAllCompanies srv = Some (Inr hcs, rq) \<longrightarrow>
        (\<exists>s1. syncCompanies e srv s = Some (Inr (), s1)
           \<and> s1 = fold (\<lambda>h t.
                   case CompanyService_upsertCompanyByHubspotId e (transformHubspotCompany h) t of
                     (Inr c, t') \<Rightarrow>
                       t'\<lparr>syncStatus := (syncStatus t')
                            \<lparr>companiesProcessed := Suc (companiesProcessed (syncStatus t'))\<rparr>\<rparr>
                   | (Inl er, t') \<Rightarrow>
                       pushError (''Failed to sync company '' @ hco_id h @ '': ''
                                  @ formatError er) t') hcs s
           \<and> warnings s1 = warnings s
           \<and> companiesProcessed (syncStatus s1) + length (errors (syncStatus s1))
               = companiesProcessed (syncStatus s) + length (errors (syncStatus s)) + length hcs)"
  proof
    assume cs: "getAllCompanies srv = Some (Inr hcs, rq)"
    have ph: "syncCompanies e srv s = Some (Inr (), fold (syncCompany e) hcs s)"
      using cs by (simp add: syncCompanies_def)
    show "\<exists>s1. syncCompanies e srv s = Some (Inr (), s1)
           \<and> s1 = fold (\<lambda>h t.
                   case CompanyService_upsertCompanyByHubspotId e (transformHubspotCompany h) t of
                     (Inr c, t') \<Rightarrow>
                       t'\<lparr>syncStatus := (syncStatus t')
                            \<lparr>companiesProcessed := Suc (companiesProcessed (syncStatus t'))\<rparr>\<rparr>
                   | (Inl er, t') \<Rightarrow>
                       pushError (''Failed to sync company '' @ hco_id h @ '': ''
                                  @ formatError er) t') hcs s
           \<and> warnings s1 = warnings s
           \<and> companiesProcessed (syncStatus s1) + length (errors (syncStatus s1))
               = companiesProcessed (syncStatus s) + length (errors (syncStatus s)) + length hcs"
      using ph fold_syncCompany_account[of e hcs s] syncCompany_as_upsert[of e]
      by (intro exI[of _ "fold (syncCompany e) hcs s"]) simp
  qed
  have p7: "\<not> isRunning (syncStatus s) \<and> healthCheck srv = Inr True
      \<and> getAllCompanies srv = Some (Inr hcs, rq) \<and> getAllContacts srv = Some (Inr hts, rq') \<longrightarrow>
        (\<exists>s1 resp s'. syncCompanies e srv (startRun e s) = Some (Inr (), s1)
           \<and> syncContacts e srv s1 = Some (Inr (), fold (syncContact e) hts s1)
           \<and> syncCrmData e srv s = Some (Inr resp, s')
           \<and> warnings s1 = warnings s
           \<and> companies s' = companies s1
           \<and> companiesSynced resp = companiesProcessed (syncStatus s1)
           \<and> companiesProcessed (syncStatus s') = companiesProcessed (syncStatus s1)
           \<and> companiesSynced resp + length (errors (syncStatus s1)) = length hcs)"
  proof
    assume a: "\<not> isRunning (syncStatus s) \<and> healthCheck srv = Inr True
      \<and> getAllCompanies srv = Some (Inr hcs, rq) \<and> getAllContacts srv = Some (Inr hts, rq')"
    then have idle: "\<not> isRunning (syncStatus s)" and up: "healthCheck srv = Inr True"
      and cs: "getAllCompanies srv = Some (Inr hcs, rq)"
      and ts: "getAllContacts srv = Some (Inr hts, rq')"
      by simp_all
    define s1 where "s1 = fold (syncCompany e) hcs (startRun e s)"
    define fin where "fin = fold (syncContact e) hts s1"
    have ph: "syncCompanies e srv (startRun e s) = Some (Inr (), s1)"
      using cs by (simp add: syncCompanies_def s1_def)
    have ph2: "syncContacts e srv s1 = Some (Inr (), fold (syncContact e) hts s1)"
      using ts by (simp add: syncContacts_def)
    have z: "warnings (startRun e s) = warnings s"
      "companiesProcessed (syncStatus (startRun e s)) = 0"
      "errors (syncStatus (startRun e s)) = []"
      by (simp_all add: startRun_def getCurrentTimestamp_def)
    have acc: "warnings s1 = warnings s"
      "companiesProcessed (syncStatus s1) + length (errors (syncStatus s1)) = length hcs"
      using fold_syncCompany_account[of e hcs "startRun e s"] z by (simp_all add: s1_def)
    have same: "companies fin = companies s1"
      "companiesProcessed (syncStatus fin) = companiesProcessed (syncStatus s1)"
      using fold_syncContact_companies[of e hts s1] by (simp_all add: fin_def)
    let ?resp = "\<lparr>message = ''Sync completed successfully'',
                  contactsSynced = contactsProcessed (syncStatus fin),
                  companiesSynced = companiesProcessed (syncStatus fin),
                  syncedAt = now e (clock fin)\<rparr>"
    let ?s' = "fin\<lparr>clock := Suc (clock fin),
                 syncStatus := (syncStatus fin)\<lparr>completedAt := Some (now e (clock fin)),
                                                 isRunning := False\<rparr>\<rparr>"
    have run: "syncCrmData e srv s = Some (Inr ?resp, ?s')"
      using sync_completed[OF idle up cs ts, of e] by (simp add: fin_def s1_def Let_def)
    show "\<exists>s1 resp s'. syncCompanies e srv (startRun e s) = Some (Inr (), s1)
           \<and> syncContacts e srv s1 = Some (Inr (), fold (syncContact e) hts s1)
           \<and> syncCrmData e srv s = Some (Inr resp, s')
           \<and> warnings s1 = warnings s
           \<and> companies s' = companies s1
           \<and> companiesSynced resp = companiesProcessed (syncStatus s1)
           \<and> companiesProcessed (syncStatus s') = companiesProcessed (syncStatus s1)
           \<and> companiesSynced resp + length (errors (syncStatus s1)) = length hcs"
      using ph ph2 run acc same
      by (intro exI[of _ s1] exI[of _ ?resp] exI[of _ ?s']) simp
  qed
  from p1 p2 p3 p4 p5 p6 p7 show ?thesis by blast
qed


text \<open>
  Three fetched companies, one without a domain, one with a blank name, one with neither:
  the run stores all three with the placeholders.
\<close>

theorem company_never_skipped_witness:
  "\<not> isRunning (syncStatus emptySys) \<and> healthCheck placeholderServer = Inr True
   \<and> getAllCompanies placeholderServer
       = Some (Inr [\<lparr>hco_id = ''900'', hco_name = Some ''Acme'', hco_domain = None\<rparr>,
                    \<lparr>hco_id = ''901'', hco_name = Some ''  '', hco_domain = Some '' b.io ''\<rparr>,
                    \<lparr>hco_id = ''902'', hco_name = None, hco_domain = None\<rparr>],
               [companiesParams])
   \<and> getAllContacts placeholderServer = Some (Inr [], [contactsParams])
   \<and> (\<exists>s1 resp s'.
         syncCompanies sampleEnv placeholderServer (startRun sampleEnv emptySys) = Some (Inr (), s1)
         \<and> syncCrmData sampleEnv placeholderServer emptySys = Some (Inr resp, s')
         \<and> warnings s1 = [] \<and> errors (syncStatus s1) = []
         \<and> companiesSynced resp = 3 \<and> companiesProcessed (syncStatus s') = 3
         \<and> map co_hubspot_id (companies s') = [''900'', ''901'', ''902'']
         \<and> map co_name (companies s') = [''Acme'', ''Unknown Company'', ''Unknown Company'']
         \<and> map co_domain (companies s') = [''unknown.com'', ''b.io'', ''unknown.com''])"
proof -
  let ?hcs = "[\<lparr>hco_id = ''900'', hco_name = Some ''Acme'', hco_domain = None\<rparr>,
               \<lparr>hco_id = ''901'', hco_name = Some ''  '', hco_domain = Some '' b.io ''\<rparr>,
               \<lparr>hco_id = ''902'', hco_name = None, hco_domain = None\<rparr>]"
  have idle: "\<not> isRunning (syncStatus emptySys)"
    by (simp add: emptySys_def idleStatus_def)
  have up: "healthCheck placeholderServer = Inr True"
    by code_simp
  have cs: "getAllCompanies placeholderServer = Some (Inr ?hcs, [companiesParams])"
    by code_simp
  have ts: "getAllContacts placeholderServer = Some (Inr [], [contactsParams])"
    by code_simp
  have run: "syncCrmData sampleEnv placeholderServer emptySys =
       Some (Inr \<lparr>message = ''Sync completed successfully'', contactsSynced = 0,
                  companiesSynced = 3, syncedAt = ''tiiii''\<rparr>,
             \<lparr>companies = [\<lparr>co_id = ''id'', co_hubspot_id = ''900'', co_name = ''Acme'',
                            co_domain = ''unknown.com'', co_created_at = ''ti''\<rparr>,
                          \<lparr>co_id = ''idi'', co_hubspot_id = ''901'',
                            co_name = ''Unknown Company'', co_domain = ''b.io'',
                            co_created_at = ''tii''\<rparr>,
                          \<lparr>co_id = ''idii'', co_hubspot_id = ''902'',
                            co_name = ''Unknown Company'', co_domain = ''unknown.com'',
                            co_created_at = ''tiii''\<rparr>],
              contacts = [],
              syncStatus = \<lparr>isRunning = False, startedAt = Some ''t'',
                             completedAt = Some ''tiiii'', contactsProcessed = 0,
                             companiesProcessed = 3, errors = []\<rparr>,
              warnings = [], idctr = 3, clock = 5\<rparr>)"
    by code_simp
  note inst = company_never_skipped[where e = sampleEnv and s = emptySys
      and srv = placeholderServer and hcs = ?hcs and rq = "[companiesParams]"
      and hts = "[]" and rq' = "[contactsParams]"]
  from inst idle up cs ts
  obtain s1 resp s' where
    ph: "syncCompanies sampleEnv placeholderServer (startRun sampleEnv emptySys) = Some (Inr (), s1)"
    and r: "syncCrmData sampleEnv placeholderServer emptySys = Some (Inr resp, s')"
    and w: "warnings s1 = warnings emptySys"
    and n: "companiesSynced resp + length (errors (syncStatus s1)) = length ?hcs"
    by blast
  from r run have vals: "companiesSynced resp = 3" "companiesProcessed (syncStatus s') = 3"
    "map co_hubspot_id (companies s') = [''900'', ''901'', ''902'']"
    "map co_name (companies s') = [''Acme'', ''Unknown Company'', ''Unknown Company'']"
    "map co_domain (companies s') = [''unknown.com'', ''b.io'', ''unknown.com'']"
    by auto
  from n vals(1) have noerr: "errors (syncStatus s1) = []" by simp
  from w have nowarn: "warnings s1 = []" by (simp add: emptySys_def)
  from ph r nowarn noerr vals idle up cs ts show ?thesis
    by (intro conjI exI[of _ s1] exI[of _ resp] exI[of _ s']) simp_all
qed

section \<open>Phase order and company references\<close>

lemma refsOk_tables:
  "companies s' = companies s \<Longrightarrow> contacts s' = contacts s \<Longrightarrow> refsOk s' = refsOk s"
  by (simp add: refsOk_def)

lemma foreignKeyOk_mono:
  "set (map co_id cs) \<subseteq> set (map co_id cs') \<Longrightarrow> foreignKeyOk cs k \<Longrightarrow> foreignKeyOk cs' k"
  by (auto simp: foreignKeyOk_def split: option.splits)

lemma refsOk_companies_mono:
  "set (map co_id (companies s)) \<subseteq> set (map co_id (companies s')) \<Longrightarrow> contacts s' = contacts s
   \<Longrightarrow> refsOk s \<Longrightarrow> refsOk s'"
  unfolding refsOk_def list_all_iff using foreignKeyOk_mono by metis

lemma map_id_setCompanyFields:
  "map co_id (map (\<lambda>c. if co_id c = i then setCompanyFields u c else c) cs) = map co_id cs"
  by (induction cs) (simp_all add: setCompanyFields_def)

lemma company_update_ids:
  "CompanyRepository_update i u s = (r, s') \<Longrightarrow> map co_id (companies s') = map co_id (companies s)"
  by (auto simp: CompanyRepository_update_def updateCompanyRows_def map_id_setCompanyFields
      Let_def simp del: map_map split: option.splits sum.splits if_splits)

lemma company_create_ids:
  "CompanyRepository_create e d s = (r, s') \<Longrightarrow>
   set (map co_id (companies s)) \<subseteq> set (map co_id (companies s'))"
  by (auto simp: CompanyRepository_create_def generateId_def getCurrentTimestamp_def Let_def
      insertCompany_def split: sum.splits if_splits)

lemma company_upsert_ids:
  "CompanyRepository_upsertByHubspotId e d s = (r, s') \<Longrightarrow>
   set (map co_id (companies s)) \<subseteq> set (map co_id (companies s'))"
proof (cases "CompanyRepository_findByHubspotId s (cc_hubspot_id d)")
  case None
  assume a: "CompanyRepository_upsertByHubspotId e d s = (r, s')"
  obtain r0 s0 where c: "CompanyRepository_create e d s = (r0, s0)" by fastforce
  with a None have "s' = s0"
    by (auto simp: CompanyRepository_upsertByHubspotId_def split: sum.splits)
  with company_create_ids[OF c] show ?thesis by simp
next
  case (Some old)
  assume a: "CompanyRepository_upsertByHubspotId e d s = (r, s')"
  with Some have "CompanyRepository_update (co_id old) (asUpdateCompany d) s = (r, s')"
    by (simp add: CompanyRepository_upsertByHubspotId_def)
  from company_update_ids[OF this] show ?thesis by simp
qed

lemma syncCompany_refsOk:
  assumes "refsOk s"
  shows "refsOk (syncCompany e h s)"
proof (cases "CompanyRepository_upsertByHubspotId e (transformHubspotCompany h) s")
  case (Pair r s')
  have ids: "set (map co_id (companies s)) \<subseteq> set (map co_id (companies s'))"
    using company_upsert_ids[OF Pair] .
  have ct: "contacts s' = contacts s"
    using company_upsert_frame[OF Pair] by simp
  have ok: "refsOk s'" using refsOk_companies_mono[OF ids ct assms] .
  show ?thesis
    unfolding syncCompany_upsert CompanyService_upsertCompanyByHubspotId_def Pair
    using ok by (cases r) (simp_all add: pushError_def refsOk_def)
qed

lemma fold_syncCompany_refsOk:
  "refsOk s \<Longrightarrow> refsOk (fold (syncCompany e) hs s)"
  by (induction hs arbitrary: s) (simp_all add: syncCompany_refsOk)

lemma contact_update_refsOk:
  assumes "ContactRepository_update i u s = (r, s')" and "refsOk s"
  shows "refsOk s' \<and> companies s' = companies s"
proof (cases "ContactRepository_findById s i")
  case None
  with assms show ?thesis by (simp add: ContactRepository_update_def)
next
  case (Some old)
  then have mem: "\<exists>c \<in> set (contacts s). ct_id c = i"
    by (auto simp: ContactRepository_findById_def dest: find_Some_mem)
  show ?thesis
  proof (cases "updateContactRows (companies s) (contacts s) i u")
    case (Inl er)
    with assms Some show ?thesis
      by (auto simp: ContactRepository_update_def split: if_splits)
  next
    case (Inr ts)
    then have fk: "foreignKeyOk (companies s) (un_company_id u)"
      and ts: "ts = map (\<lambda>c. if ct_id c = i then setContactFields u c else c) (contacts s)"
      using mem by (auto simp: updateContactRows_def foreignKeyOk_def split: if_splits option.splits)
    have "list_all (\<lambda>c. foreignKeyOk (companies s) (ct_company_id c)) ts"
      using assms(2) fk unfolding ts refsOk_def
      by (auto simp: list_all_iff setContactFields_def split: option.splits)
    with assms Some Inr show ?thesis
      by (auto simp: ContactRepository_update_def refsOk_def Let_def split: if_splits)
  qed
qed

lemma contact_create_refsOk:
  assumes "ContactRepository_create e d s = (r, s')" and "refsOk s"
  shows "refsOk s' \<and> companies s' = companies s"
  using assms
  by (auto simp: ContactRepository_create_def generateId_def getCurrentTimestamp_def Let_def
      insertContact_def refsOk_def split: sum.splits if_splits)

lemma contact_upsert_refsOk:
  assumes "ContactRepository_upsertByHubspotId e d s = (r, s')" and "refsOk s"
  shows "refsOk s' \<and> companies s' = companies s"
proof (cases "ContactRepository_findByHubspotId s (cn_hubspot_id d)")
  case None
  obtain r0 s0 where c: "ContactRepository_create e d s = (r0, s0)" by fastforce
  with assms(1) None have "s' = s0"
    by (auto simp: ContactRepository_upsertByHubspotId_def split: sum.splits)
  with contact_create_refsOk[OF c assms(2)] show ?thesis by simp
next
  case (Some old)
  with assms(1) have "ContactRepository_update (ct_id old) (asUpdateContact d) s = (r, s')"
    by (simp add: ContactRepository_upsertByHubspotId_def)
  from contact_update_refsOk[OF this assms(2)] show ?thesis .
qed

lemma syncContact_refsOk:
  assumes "refsOk s"
  shows "refsOk (syncContact e h s)"
proof (cases "ContactRepository_upsertByHubspotId e (transformHubspotContact s h) s")
  case (Pair r s')
  have ok: "refsOk s'" using contact_upsert_refsOk[OF Pair assms] by simp
  show ?thesis
    unfolding syncContact_def Let_def ContactService_upsertContactByHubspotId_def Pair
    using ok assms by (cases r) (simp_all add: pushError_def logWarn_def refsOk_def)
qed

lemma fold_syncContact_refsOk:
  "refsOk s \<Longrightarrow> refsOk (fold (syncContact e) hs s)"
  by (induction hs arbitrary: s) (simp_all add: syncContact_refsOk)

lemma transform_contact_reference:
  "cn_company_id (transformHubspotContact t h) = Some k \<Longrightarrow> k \<in> set (map co_id (companies t))"
  by (auto simp: transformHubspotContact_def Let_def CompanyService_getCompanyByHubspotId_def
      CompanyRepository_findByHubspotId_def split: if_splits dest!: find_Some_mem)

lemma syncCompanies_refsOk:
  "syncCompanies e srv s = Some (r, s') \<Longrightarrow> refsOk s \<Longrightarrow> refsOk s'"
  by (auto simp: syncCompanies_def fold_syncCompany_refsOk split: option.splits sum.splits)

lemma syncContacts_refsOk:
  "syncContacts e srv s = Some (r, s') \<Longrightarrow> refsOk s \<Longrightarrow> refsOk s'"
  by (auto simp: syncContacts_def fold_syncContact_refsOk split: option.splits sum.splits)

lemma syncPhases_refsOk:
  assumes "syncPhases e srv s = Some (r, s')" and "refsOk s"
  shows "refsOk s'"
proof (cases "healthCheck srv")
  case (Inl er)
  with assms show ?thesis by (simp add: syncPhases_def)
next
  case (Inr up)
  show ?thesis
  proof (cases up)
    case False
    with Inr assms show ?thesis by (simp add: syncPhases_def)
  next
    case True
    show ?thesis
    proof (cases "syncCompanies e srv s")
      case None
      with Inr True assms show ?thesis by (simp add: syncPhases_def)
    next
      case (Some a)
      obtain r1 s1 where a: "a = (r1, s1)" by fastforce
      have ok1: "refsOk s1" using syncCompanies_refsOk[of e srv s r1 s1] Some a assms(2) by simp
      show ?thesis
      proof (cases r1)
        case (Inl er)
        with Inr True Some a assms(1) have "s' = s1" by (simp add: syncPhases_def)
        with ok1 show ?thesis by simp
      next
        case (Inr u)
        with \<open>healthCheck srv = Inr up\<close> True Some a assms(1)
        have "syncContacts e srv s1 = Some (r, s')" by (simp add: syncPhases_def)
        from syncContacts_refsOk[OF this ok1] show ?thesis .
      qed
    qed
  qed
qed

lemma startRun_tables:
  "companies (startRun e s) = companies s \<and> contacts (startRun e s) = contacts s"
  by (simp add: startRun_def getCurrentTimestamp_def)

lemma syncCrmData_refsOk:
  assumes "syncCrmData e srv s = Some (r, s')" and "refsOk s"
  shows "refsOk s'"
proof (cases "isRunning (syncStatus s)")
  case True
  with assms show ?thesis by (simp add: syncCrmData_def)
next
  case False
  have ok0: "refsOk (startRun e s)"
    using assms(2) startRun_tables[of e s] by (simp add: refsOk_def)
  show ?thesis
  proof (cases "syncPhases e srv (startRun e s)")
    case None
    with False assms show ?thesis by (simp add: syncCrmData_def)
  next
    case (Some a)
    obtain r2 s2 where a: "a = (r2, s2)" by fastforce
    have ok2: "refsOk s2" using syncPhases_refsOk[of e srv "startRun e s" r2 s2] Some a ok0 by simp
    have "companies s' = companies s2 \<and> contacts s' = contacts s2"
      using assms(1) False Some a
      by (cases r2) (auto simp: syncCrmData_def getCurrentTimestamp_def pushError_def Let_def)
    with ok2 show ?thesis by (simp add: refsOk_def)
  qed
qed

text \<open>
  C4. A run keeps referential integrity. When the health check and both fetches succeed,
  the contact loop starts from the state \<open>mid\<close> the whole company loop produced: the
  company phase wrote no contact, the contact phase writes no company (after any number
  of contact records the company table is that of \<open>mid\<close> and every stored contact refers
  to a company in it), and the final tables are those the contact loop left. When the
  company fetch fails there is no contact phase. The reference the transform gives a
  contact is always the local id of a company stored at that moment.
\<close>

theorem companies_before_contacts:
  assumes ok: "refsOk s" and run: "syncCrmData e srv s = Some (r, s')"
  shows "refsOk s'
     \<and> (\<forall>hcs rq hs rq'.
           \<not> isRunning (syncStatus s) \<and> healthCheck srv = Inr True
           \<and> getAllCompanies srv = Some (Inr hcs, rq) \<and> getAllContacts srv = Some (Inr hs, rq')
          \<longrightarrow> (let mid = fold (syncCompany e) hcs (startRun e s)
               in contacts mid = contacts s
                \<and> (\<forall>n. companies (fold (syncContact e) (take n hs) mid) = companies mid
                       \<and> refsOk (fold (syncContact e) (take n hs) mid))
                \<and> companies s' = companies mid
                \<and> contacts s' = contacts (fold (syncContact e) hs mid)))
     \<and> (\<forall>er rq. \<not> isRunning (syncStatus s) \<and> healthCheck srv = Inr True
           \<and> getAllCompanies srv = Some (Inl er, rq)
          \<longrightarrow> contacts s' = contacts s \<and> companies s' = companies s)
     \<and> (\<forall>t h k. cn_company_id (transformHubspotContact t h) = Some k
          \<longrightarrow> k \<in> set (map co_id (companies t)))"
proof -
  have p1: "refsOk s'" using syncCrmData_refsOk[OF run ok] .
  have p2: "\<forall>hcs rq hs rq'.
           \<not> isRunning (syncStatus s) \<and> healthCheck srv = Inr True
           \<and> getAllCompanies srv = Some (Inr hcs, rq) \<and> getAllContacts srv = Some (Inr hs, rq')
          \<longrightarrow> (let mid = fold (syncCompany e) hcs (startRun e s)
               in contacts mid = contacts s
                \<and> (\<forall>n. companies (fold (syncContact e) (take n hs) mid) = companies mid
                       \<and> refsOk (fold (syncContact e) (take n hs) mid))
                \<and> companies s' = companies mid
                \<and> contacts s' = contacts (fold (syncContact e) hs mid))"
  proof (intro allI impI)
    fix hcs rq hs rq'
    assume a: "\<not> isRunning (syncStatus s) \<and> healthCheck srv = Inr True
           \<and> getAllCompanies srv = Some (Inr hcs, rq) \<and> getAllContacts srv = Some (Inr hs, rq')"
    define mid where "mid = fold (syncCompany e) hcs (startRun e s)"
    have okmid: "refsOk mid"
      unfolding mid_def using ok startRun_tables[of e s]
      by (intro fold_syncCompany_refsOk) (simp add: refsOk_def)
    have c1: "contacts mid = contacts s"
      unfolding mid_def
      using fold_syncCompany_contacts[of e hcs "startRun e s"] startRun_tables[of e s]
      by simp
    have c2: "\<forall>n. companies (fold (syncContact e) (take n hs) mid) = companies mid
                       \<and> refsOk (fold (syncContact e) (take n hs) mid)"
      using fold_syncContact_companies fold_syncContact_refsOk[OF okmid] by simp
    from a have "syncCrmData e srv s =
       (let fin = fold (syncContact e) hs mid
        in Some (Inr \<lparr>message = ''Sync completed successfully'',
                      contactsSynced = contactsProcessed (syncStatus fin),
                      companiesSynced = companiesProcessed (syncStatus fin),
                      syncedAt = now e (clock fin)\<rparr>,
                 fin\<lparr>clock := Suc (clock fin),
                     syncStatus := (syncStatus fin)\<lparr>completedAt := Some (now e (clock fin)),
                                                     isRunning := False\<rparr>\<rparr>))"
      unfolding mid_def by (intro sync_completed) auto
    with run have s': "s' = (let fin = fold (syncContact e) hs mid in fin\<lparr>clock := Suc (clock fin),
                     syncStatus := (syncStatus fin)\<lparr>completedAt := Some (now e (clock fin)),
                                                     isRunning := False\<rparr>\<rparr>)"
      by (simp add: Let_def)
    have c3: "companies s' = companies mid" "contacts s' = contacts (fold (syncContact e) hs mid)"
      unfolding s' using fold_syncContact_companies[of e hs mid] by (simp_all add: Let_def)
    show "let mid = fold (syncCompany e) hcs (startRun e s)
               in contacts mid = contacts s
                \<and> (\<forall>n. companies (fold (syncContact e) (take n hs) mid) = companies mid
                       \<and> refsOk (fold (syncContact e) (take n hs) mid))
                \<and> companies s' = companies mid
                \<and> contacts s' = contacts (fold (syncContact e) hs mid)"
      using c1 c2 c3 unfolding Let_def mid_def by blast
  qed
  have p3: "\<forall>er rq. \<not> isRunning (syncStatus s) \<and> healthCheck srv = Inr True
           \<and> getAllCompanies srv = Some (Inl er, rq)
          \<longrightarrow> contacts s' = contacts s \<and> companies s' = companies s"
  proof (intro allI impI)
    fix er rq
    assume a: "\<not> isRunning (syncStatus s) \<and> healthCheck srv = Inr True
           \<and> getAllCompanies srv = Some (Inl er, rq)"
    then have "syncPhases e srv (startRun e s) = Some (Inl er, startRun e s)"
      by (simp add: syncPhases_def syncCompanies_def)
    with run a show "contacts s' = contacts s \<and> companies s' = companies s"
      using startRun_tables[of e s]
      by (auto simp: syncCrmData_def getCurrentTimestamp_def pushError_def Let_def)
  qed
  have p4: "\<forall>t h k. cn_company_id (transformHubspotContact t h) = Some k
          \<longrightarrow> k \<in> set (map co_id (companies t))"
    using transform_contact_reference by blast
  from p1 p2 p3 p4 show ?thesis by blast
qed

theorem companies_before_contacts_witness:
  "refsOk emptySys
   \<and> syncCrmData sampleEnv okServer emptySys =
       Some (Inr \<lparr>message = ''Sync completed successfully'', contactsSynced = 2,
                  companiesSynced = 1, syncedAt = ''tiiii''\<rparr>, okFinal)
   \<and> \<not> isRunning (syncStatus emptySys) \<and> healthCheck okServer = Inr True
   \<and> getAllCompanies okServer
       = Some (Inr [\<lparr>hco_id = ''900'', hco_name = Some ''Acme'', hco_domain = None\<rparr>],
               [companiesParams])
   \<and> getAllContacts okServer = Some (Inr [ann101, bob102, eve104], [contactsParams])
   \<and> refsOk okFinal
   \<and> companies okFinal
       = companies (fold (syncCompany sampleEnv)
           [\<lparr>hco_id = ''900'', hco_name = Some ''Acme'', hco_domain = None\<rparr>]
           (startRun sampleEnv emptySys))
   \<and> map co_id (companies okFinal) = [''id'']
   \<and> map ct_company_id (contacts okFinal) = [None, Some ''id'']"
proof -
  have ok: "refsOk emptySys"
    by (simp add: refsOk_def emptySys_def)
  have run: "syncCrmData sampleEnv okServer emptySys =
       Some (Inr \<lparr>message = ''Sync completed successfully'', contactsSynced = 2,
                  companiesSynced = 1, syncedAt = ''tiiii''\<rparr>, okFinal)"
    by code_simp
  have idle: "\<not> isRunning (syncStatus emptySys)"
    by (simp add: emptySys_def idleStatus_def)
  have up: "healthCheck okServer = Inr True"
    by code_simp
  have cs: "getAllCompanies okServer
       = Some (Inr [\<lparr>hco_id = ''900'', hco_name = Some ''Acme'', hco_domain = None\<rparr>],
               [companiesParams])"
    by code_simp
  have ts: "getAllContacts okServer = Some (Inr [ann101, bob102, eve104], [contactsParams])"
    by code_simp
  note inst = companies_before_contacts[OF ok run]
  from inst have a: "refsOk okFinal" by blast
  from inst idle up cs ts
  have b: "companies okFinal
       = companies (fold (syncCompany sampleEnv)
           [\<lparr>hco_id = ''900'', hco_name = Some ''Acme'', hco_domain = None\<rparr>]
           (startRun sampleEnv emptySys))"
    unfolding Let_def by blast
  have c: "map co_id (companies okFinal) = [''id'']"
    "map ct_company_id (contacts okFinal) = [None, Some ''id'']"
    by (simp_all add: okFinal_def)
  from ok run idle up cs ts a b c show ?thesis by blast
qed

section \<open>The tables stay well formed\<close>

text \<open>
  The constraints of the schema make well-formedness of both tables an invariant of every
  repository operation the run performs, whatever its outcome; with referential integrity
  it holds of the empty system and so of every state a run can reach from it.
\<close>

lemma company_create_wf:
  assumes "CompanyRepository_create e d s = (r, s')" and "wfCompanies s"
  shows "wfCompanies s'"
  using assms
  by (auto simp: CompanyRepository_create_def generateId_def getCurrentTimestamp_def Let_def
      insertCompany_def wfCompanies_def split: sum.splits if_splits)

lemma company_upsert_wf:
  assumes up: "CompanyRepository_upsertByHubspotId e d s = (r, s')" and wf: "wfCompanies s"
  shows "wfCompanies s'"
proof (cases "CompanyRepository_findByHubspotId s (cc_hubspot_id d)")
  case None
  obtain r0 s0 where c: "CompanyRepository_create e d s = (r0, s0)" by fastforce
  with up None have "s' = s0"
    by (auto simp: CompanyRepository_upsertByHubspotId_def split: sum.splits)
  with company_create_wf[OF c wf] show ?thesis by simp
next
  case (Some old)
  from Some have mem: "old \<in> set (companies s)"
    by (auto simp: CompanyRepository_findByHubspotId_def dest: find_Some_mem)
  from upsert_existing[OF wf Some, of e] up
  have "s' = s\<lparr>companies := map (\<lambda>c. if co_id c = co_id old
               then old\<lparr>co_name := cc_name d, co_domain := cc_domain d\<rparr> else c) (companies s)\<rparr>"
    by simp
  then show ?thesis
    using wf_after_update[OF wf mem, of "old\<lparr>co_name := cc_name d, co_domain := cc_domain d\<rparr>"]
    by simp
qed

lemma contact_create_wf:
  assumes "ContactRepository_create e d s = (r, s')" and "wfContacts s"
  shows "wfContacts s'"
  using assms
  by (auto simp: ContactRepository_create_def generateId_def getCurrentTimestamp_def Let_def
      insertContact_def wfContacts_def split: sum.splits if_splits)

lemma contact_upsert_wf:
  assumes up: "ContactRepository_upsertByHubspotId e d s = (r, s')" and wf: "wfContacts s"
  shows "wfContacts s'"
proof (cases "ContactRepository_findByHubspotId s (cn_hubspot_id d)")
  case None
  obtain r0 s0 where c: "ContactRepository_create e d s = (r0, s0)" by fastforce
  with up None have "s' = s0"
    by (auto simp: ContactRepository_upsertByHubspotId_def split: sum.splits)
  with contact_create_wf[OF c wf] show ?thesis by simp
next
  case (Some old)
  from Some have mem: "old \<in> set (contacts s)" and hid: "ct_hubspot_id old = cn_hubspot_id d"
    by (auto simp: ContactRepository_findByHubspotId_def dest: find_Some_mem)
  from wf have d1: "distinct (map ct_id (contacts s))" by (simp add: wfContacts_def)
  have f1: "ContactRepository_findById s (ct_id old) = Some old"
    unfolding ContactRepository_findById_def using find_distinct_key[OF d1 mem] .
  from up Some have u: "ContactRepository_update (ct_id old) (asUpdateContact d) s = (r, s')"
    by (simp add: ContactRepository_upsertByHubspotId_def)
  show ?thesis
  proof (cases "updateContactRows (companies s) (contacts s) (ct_id old) (asUpdateContact d)")
    case (Inl er)
    with u f1 have "s' = s"
      by (auto simp: ContactRepository_update_def split: if_splits)
    with wf show ?thesis by simp
  next
    case (Inr ts)
    then have em: "emailFree s (ct_id old) (cn_email d)"
      and fk: "foreignKeyOk (companies s) (cn_company_id d)"
      using mem
      by (auto simp: updateContactRows_def asUpdateContact_def emailFree_def list_all_iff
          foreignKeyOk_def split: if_splits option.splits)
    let ?v = "setContactFields (asUpdateContact d) old"
    have vs: "ct_id ?v = ct_id old" "ct_hubspot_id ?v = ct_hubspot_id old" "ct_email ?v = cn_email d"
      using hid by (simp_all add: setContactFields_def asUpdateContact_def)
    from contact_update_existing[OF wf Some em fk] u
    have "s' = s\<lparr>contacts := map (\<lambda>c. if ct_id c = ct_id old then ?v else c) (contacts s)\<rparr>"
      by simp
    then show ?thesis
      using wfContacts_after_update[OF wf mem vs(1) vs(2)] em vs(3) by simp
  qed
qed

lemma syncCompany_wf:
  assumes "wfCompanies s \<and> wfContacts s"
  shows "wfCompanies (syncCompany e h s) \<and> wfContacts (syncCompany e h s)"
proof (cases "CompanyRepository_upsertByHubspotId e (transformHubspotCompany h) s")
  case (Pair r s')
  have a: "wfCompanies s'" using company_upsert_wf[OF Pair] assms by simp
  have b: "wfContacts s'" using company_upsert_frame[OF Pair] assms by (simp add: wfContacts_def)
  show ?thesis
    unfolding syncCompany_upsert CompanyService_upsertCompanyByHubspotId_def Pair
    using a b by (cases r) (simp_all add: pushError_def wfCompanies_def wfContacts_def)
qed

lemma syncContact_wf:
  assumes "wfCompanies s \<and> wfContacts s"
  shows "wfCompanies (syncContact e h s) \<and> wfContacts (syncContact e h s)"
proof (cases "ContactRepository_upsertByHubspotId e (transformHubspotContact s h) s")
  case (Pair r s')
  have a: "wfContacts s'" using contact_upsert_wf[OF Pair] assms by simp
  have b: "wfCompanies s'" using contact_upsert_frame[OF Pair] assms by (simp add: wfCompanies_def)
  show ?thesis
    unfolding syncContact_def Let_def ContactService_upsertContactByHubspotId_def Pair
    using a b assms
    by (cases r) (simp_all add: pushError_def logWarn_def wfCompanies_def wfContacts_def)
qed

lemma fold_syncCompany_wf:
  "wfCompanies s \<and> wfContacts s \<Longrightarrow>
   wfCompanies (fold (syncCompany e) hs s) \<and> wfContacts (fold (syncCompany e) hs s)"
  by (induction hs arbitrary: s) (simp_all add: syncCompany_wf)

lemma fold_syncContact_wf:
  "wfCompanies s \<and> wfContacts s \<Longrightarrow>
   wfCompanies (fold (syncContact e) hs s) \<and> wfContacts (fold (syncContact e) hs s)"
  by (induction hs arbitrary: s) (simp_all add: syncContact_wf)

lemma syncPhases_wf:
  assumes "syncPhases e srv s = Some (r, s')" and "wfCompanies s \<and> wfContacts s"
  shows "wfCompanies s' \<and> wfContacts s'"
  using assms fold_syncCompany_wf[OF assms(2), of e] fold_syncContact_wf[of _ e]
  by (auto simp: syncPhases_def syncCompanies_def syncContacts_def
      split: sum.splits if_splits option.splits prod.splits)

lemma syncCrmData_wf:
  assumes "syncCrmData e srv s = Some (r, s')" and "wfCompanies s \<and> wfContacts s"
  shows "wfCompanies s' \<and> wfContacts s'"
proof (cases "isRunning (syncStatus s)")
  case True
  with assms show ?thesis by (simp add: syncCrmData_def)
next
  case False
  have ok0: "wfCompanies (startRun e s) \<and> wfContacts (startRun e s)"
    using assms(2) startRun_tables[of e s] by (simp add: wfCompanies_def wfContacts_def)
  show ?thesis
  proof (cases "syncPhases e srv (startRun e s)")
    case None
    with False assms show ?thesis by (simp add: syncCrmData_def)
  next
    case (Some a)
    obtain r2 s2 where a: "a = (r2, s2)" by fastforce
    have ok2: "wfCompanies s2 \<and> wfContacts s2"
      using syncPhases_wf[of e srv "startRun e s" r2 s2] Some a ok0 by simp
    have "companies s' = companies s2 \<and> contacts s' = contacts s2"
      using assms(1) False Some a
      by (cases r2) (auto simp: syncCrmData_def getCurrentTimestamp_def pushError_def Let_def)
    with ok2 show ?thesis by (simp add: wfCompanies_def wfContacts_def)
  qed
qed

lemma tables_of_emptySys:
  "wfCompanies emptySys \<and> wfContacts emptySys \<and> refsOk emptySys"
  by (simp add: wfCompanies_def wfContacts_def refsOk_def emptySys_def)

section \<open>No email format check in the sync\<close>

lemma transform_contact_fk:
  "foreignKeyOk (companies s) (cn_company_id (transformHubspotContact s h))
   \<and> foreignKeyOk (companies s) (orNull (cn_company_id (transformHubspotContact s h)))"
proof -
  have "\<And>k. cn_company_id (transformHubspotContact s h) = Some k \<Longrightarrow> k \<in> set (map co_id (companies s))"
    by (rule transform_contact_reference)
  then show ?thesis
    by (auto simp: foreignKeyOk_def orNull_def split: option.splits if_splits)
qed

lemma contact_upsert_stored:
  assumes st: "storable e s d"
    and fk: "foreignKeyOk (companies s) (cn_company_id d)"
      "foreignKeyOk (companies s) (orNull (cn_company_id d))"
  shows "\<exists>c s' row. ContactRepository_upsertByHubspotId e d s = (Inr (Some c), s')
           \<and> ContactRepository_findByHubspotId s' (cn_hubspot_id d) = Some row
           \<and> ct_email row = cn_email d"
proof (cases "ContactRepository_findByHubspotId s (cn_hubspot_id d)")
  case None
  with st have fresh: "gen_id e (idctr s) \<notin> set (map ct_id (contacts s))"
    and em: "cn_email d \<notin> set (map ct_email (contacts s))"
    by (simp_all add: storable_def)
  let ?row = "\<lparr>ct_id = gen_id e (idctr s), ct_hubspot_id = cn_hubspot_id d,
            ct_firstname = orNull (cn_firstname d), ct_lastname = orNull (cn_lastname d),
            ct_email = cn_email d, ct_company_id = orNull (cn_company_id d),
            ct_created_at = now e (clock s)\<rparr>"
  from None have nh: "cn_hubspot_id d \<notin> set (map ct_hubspot_id (contacts s))"
    by (simp add: ContactRepository_findByHubspotId_def find_None_notin)
  have "find (\<lambda>c. ct_hubspot_id c = cn_hubspot_id d) (contacts s @ [?row]) = Some ?row"
    using nh by (intro find_append_new) auto
  then show ?thesis
    using contact_upsert_absent[OF None fresh em fk(2)]
    by (simp add: ContactRepository_findByHubspotId_def)
next
  case (Some old)
  with st have wf: "wfContacts s" and em: "emailFree s (ct_id old) (cn_email d)"
    by (simp_all add: storable_def)
  let ?v = "setContactFields (asUpdateContact d) old"
  let ?s' = "s\<lparr>contacts := map (\<lambda>c. if ct_id c = ct_id old then ?v else c) (contacts s)\<rparr>"
  from Some have mem: "old \<in> set (contacts s)" and hid: "ct_hubspot_id old = cn_hubspot_id d"
    by (auto simp: ContactRepository_findByHubspotId_def dest: find_Some_mem)
  have vs: "ct_id ?v = ct_id old" "ct_hubspot_id ?v = ct_hubspot_id old" "ct_email ?v = cn_email d"
    using hid by (simp_all add: setContactFields_def asUpdateContact_def)
  have wf': "wfContacts ?s'"
    using wfContacts_after_update[OF wf mem vs(1) vs(2)] em vs(3) by simp
  have vmem: "?v \<in> set (contacts ?s')" using mem by (auto intro!: image_eqI[where x=old])
  have "find (\<lambda>y. ct_hubspot_id y = ct_hubspot_id ?v) (contacts ?s') = Some ?v"
    using wf' vmem unfolding wfContacts_def by (intro find_distinct_key) auto
  then have "ContactRepository_findByHubspotId ?s' (cn_hubspot_id d) = Some ?v"
    using hid vs(2) by (simp add: ContactRepository_findByHubspotId_def)
  then show ?thesis
    using contact_upsert_existing[OF wf Some em fk(1), of e] vs(3) by simp
qed

lemma contact_upsert_rejected:
  assumes "ContactRepository_upsertByHubspotId e d s = (Inl er, s')"
  shows "contacts s' = contacts s"
  using assms
  by (auto simp: ContactRepository_upsertByHubspotId_def ContactRepository_update_def
      ContactRepository_create_def generateId_def getCurrentTimestamp_def Let_def
      split: option.splits sum.splits if_splits prod.splits)

lemma find_append_found:
  "find P xs = Some x \<Longrightarrow> find P (xs @ ys) = Some x"
  by (induction xs) (auto split: if_splits)

lemma find_map_same:
  "(\<And>c. c \<in> set xs \<Longrightarrow> P (f c) = P c) \<Longrightarrow> (\<And>c. c \<in> set xs \<Longrightarrow> P c \<Longrightarrow> f c = c)
   \<Longrightarrow> find P (map f xs) = find P xs"
  by (induction xs) auto

lemma contact_upsert_table:
  assumes "ContactRepository_upsertByHubspotId e d s = (r, s')"
  shows "contacts s' = contacts s
    \<or> (\<exists>row. contacts s' = contacts s @ [row] \<and> ct_hubspot_id row = cn_hubspot_id d)
    \<or> (\<exists>old. ContactRepository_findByHubspotId s (cn_hubspot_id d) = Some old
         \<and> contacts s' = map (\<lambda>c. if ct_id c = ct_id old
                then setContactFields (asUpdateContact d) c else c) (contacts s))"
  using assms
  by (auto simp: ContactRepository_upsertByHubspotId_def ContactRepository_update_def
      ContactRepository_create_def generateId_def getCurrentTimestamp_def Let_def
      insertContact_def updateContactRows_def
      split: option.splits sum.splits if_splits prod.splits)

lemma contact_upsert_keeps_other:
  assumes wf: "wfContacts s" and up: "ContactRepository_upsertByHubspotId e d s = (r, s')"
    and row: "ContactRepository_findByHubspotId s k = Some row" and other: "cn_hubspot_id d \<noteq> k"
  shows "ContactRepository_findByHubspotId s' k = Some row"
proof -
  from contact_upsert_table[OF up]
  consider (same) "contacts s' = contacts s"
    | (new) r0 where "contacts s' = contacts s @ [r0]"
    | (upd) old where "ContactRepository_findByHubspotId s (cn_hubspot_id d) = Some old"
        "contacts s' = map (\<lambda>c. if ct_id c = ct_id old
                then setContactFields (asUpdateContact d) c else c) (contacts s)"
    by blast
  then show ?thesis
  proof cases
    case same
    with row show ?thesis by (simp add: ContactRepository_findByHubspotId_def)
  next
    case new
    with row show ?thesis
      by (simp add: ContactRepository_findByHubspotId_def find_append_found)
  next
    case upd
    from upd(1) have mem: "old \<in> set (contacts s)" and hid: "ct_hubspot_id old = cn_hubspot_id d"
      by (auto simp: ContactRepository_findByHubspotId_def dest: find_Some_mem)
    from wf have d1: "distinct (map ct_id (contacts s))" by (simp add: wfContacts_def)
    have uniq: "c = old" if "c \<in> set (contacts s)" "ct_id c = ct_id old" for c
      using d1 that mem by (meson distinct_map inj_onD)
    let ?f = "\<lambda>c. if ct_id c = ct_id old then setContactFields (asUpdateContact d) c else c"
    have "find (\<lambda>c. ct_hubspot_id c = k) (map ?f (contacts s))
        = find (\<lambda>c. ct_hubspot_id c = k) (contacts s)"
    proof (rule find_map_same)
      fix c assume c: "c \<in> set (contacts s)"
      show "(ct_hubspot_id (?f c) = k) = (ct_hubspot_id c = k)"
        using uniq[OF c] hid other by (auto simp: setContactFields_def asUpdateContact_def)
    next
      fix c assume c: "c \<in> set (contacts s)" and k: "ct_hubspot_id c = k"
      show "?f c = c" using uniq[OF c] hid other k by auto
    qed
    with row upd(2) show ?thesis by (simp add: ContactRepository_findByHubspotId_def)
  qed
qed

lemma syncContact_table:
  "contacts (syncContact e h s) = contacts s
   \<or> contacts (syncContact e h s)
       = contacts (snd (ContactRepository_upsertByHubspotId e (transformHubspotContact s h) s))"
proof (cases "ContactRepository_upsertByHubspotId e (transformHubspotContact s h) s")
  case (Pair r s')
  show ?thesis
    unfolding syncContact_def Let_def ContactService_upsertContactByHubspotId_def Pair
    by (cases r) (simp_all add: pushError_def logWarn_def)
qed

lemma wfContacts_cong: "contacts t = contacts s \<Longrightarrow> wfContacts t = wfContacts s"
  by (simp add: wfContacts_def)

lemma findByHubspotId_cong:
  "contacts t = contacts s \<Longrightarrow>
   ContactRepository_findByHubspotId t k = ContactRepository_findByHubspotId s k"
  by (simp add: ContactRepository_findByHubspotId_def)

lemma syncContact_wfContacts:
  assumes "wfContacts s" shows "wfContacts (syncContact e h s)"
proof (cases "ContactRepository_upsertByHubspotId e (transformHubspotContact s h) s")
  case (Pair r s')
  have "wfContacts s'" using contact_upsert_wf[OF Pair assms] .
  with syncContact_table[of e h s] assms Pair show ?thesis
    using wfContacts_cong[of "syncContact e h s" s] wfContacts_cong[of "syncContact e h s" s']
    by auto
qed

lemma syncContact_keeps_other:
  assumes wf: "wfContacts s" and row: "ContactRepository_findByHubspotId s k = Some row"
    and other: "hct_id h \<noteq> k"
  shows "ContactRepository_findByHubspotId (syncContact e h s) k = Some row"
proof (cases "ContactRepository_upsertByHubspotId e (transformHubspotContact s h) s")
  case (Pair r s')
  have o: "cn_hubspot_id (transformHubspotContact s h) \<noteq> k"
    using other transform_contact_email[of s h] by simp
  have "ContactRepository_findByHubspotId s' k = Some row"
    using contact_upsert_keeps_other[OF wf Pair row o] .
  with syncContact_table[of e h s] row Pair show ?thesis
    using findByHubspotId_cong[of "syncContact e h s" s k]
      findByHubspotId_cong[of "syncContact e h s" s' k]
    by auto
qed

lemma fold_syncContact_keeps_other:
  "wfContacts s \<Longrightarrow> ContactRepository_findByHubspotId s k = Some row
   \<Longrightarrow> k \<notin> set (map hct_id hs)
   \<Longrightarrow> ContactRepository_findByHubspotId (fold (syncContact e) hs s) k = Some row"
proof (induction hs arbitrary: s)
  case Nil
  then show ?case by simp
next
  case (Cons h hs)
  from Cons.prems have o: "hct_id h \<noteq> k" and rest: "k \<notin> set (map hct_id hs)" by auto
  show ?case
    using Cons.IH[OF syncContact_wfContacts[OF Cons.prems(1)]
        syncContact_keeps_other[OF Cons.prems(1) Cons.prems(2) o] rest]
    by simp
qed

lemma fold_syncContact_wfContacts:
  "wfContacts s \<Longrightarrow> wfContacts (fold (syncContact e) hs s)"
  by (induction hs arbitrary: s) (simp_all add: syncContact_wfContacts)

lemma contact_upsert_accepted:
  assumes wf: "wfContacts s" and up: "ContactRepository_upsertByHubspotId e d s = (Inr c, s')"
  shows "storable e s d"
proof (cases "ContactRepository_findByHubspotId s (cn_hubspot_id d)")
  case None
  with up have "gen_id e (idctr s) \<notin> set (map ct_id (contacts s))
      \<and> cn_email d \<notin> set (map ct_email (contacts s))"
    by (auto simp: ContactRepository_upsertByHubspotId_def ContactRepository_create_def
        generateId_def getCurrentTimestamp_def Let_def insertContact_def
        split: if_splits sum.splits prod.splits)
  with None wf show ?thesis by (simp add: storable_def)
next
  case (Some old)
  from Some have mem: "old \<in> set (contacts s)"
    by (auto simp: ContactRepository_findByHubspotId_def dest: find_Some_mem)
  from wf have d1: "distinct (map ct_id (contacts s))" by (simp add: wfContacts_def)
  have f1: "ContactRepository_findById s (ct_id old) = Some old"
    unfolding ContactRepository_findById_def using find_distinct_key[OF d1 mem] .
  from up Some f1 mem
  have "\<not> (\<exists>c' \<in> set (contacts s). ct_id c' \<noteq> ct_id old \<and> ct_email c' = cn_email d)"
    by (auto simp: ContactRepository_upsertByHubspotId_def ContactRepository_update_def
        updateContactRows_def asUpdateContact_def Let_def split: if_splits sum.splits)
  then have "emailFree s (ct_id old) (cn_email d)"
    by (auto simp: emailFree_def list_all_iff)
  with Some wf show ?thesis by (simp add: storable_def)
qed

text \<open>
  C10, as stated, fails: two fetched contacts with the same email \<open>invalid-email\<close> under
  different external ids. Neither email is checked for its format, and the first contact
  is stored with it; the insert of the second violates the \<open>UNIQUE\<close> constraint on
  \<open>email\<close>, so the second contact, whose email trims to a non-empty string, is not
  persisted: the run ends with no contact under its external id and with one entry in the
  error list.
\<close>

theorem same_email_not_persisted:
  "getAllContacts twinServer = Some (Inr [zed201, zed202], [contactsParams])
   \<and> cleanString (hct_email zed201) = ''invalid-email''
   \<and> cleanString (hct_email zed202) = ''invalid-email''
   \<and> syncCrmData sampleEnv twinServer emptySys =
       Some (Inr \<lparr>message = ''Sync completed successfully'', contactsSynced = 1,
                  companiesSynced = 0, syncedAt = ''tiii''\<rparr>, twinFinal)
   \<and> ContactRepository_findByHubspotId twinFinal ''202'' = None
   \<and> ContactRepository_findByEmail twinFinal ''invalid-email''
       = Some \<lparr>ct_id = ''id'', ct_hubspot_id = ''201'', ct_firstname = Some ''Zed'',
               ct_lastname = None, ct_email = ''invalid-email'', ct_company_id = None,
               ct_created_at = ''ti''\<rparr>
   \<and> map ct_hubspot_id (contacts twinFinal) = [''201'']"
  by code_simp

text \<open>
  C10, amended. In a run over fetched contacts \<open>pre @ h # post\<close> where the email of
  \<open>h\<close> trims to a non-empty string, whatever the string: the candidate carries that string
  as its email and the loop body at \<open>h\<close> is the upsert of the candidate, with
  \<^verbatim>\<open>isValidEmail\<close> not consulted. The store accepts the upsert exactly when it violates
  no constraint of the contact table (\<^term>\<open>storable\<close>). Then the contact stored under
  the external id has that email, the record is counted as processed with no error, and
  the contact is still stored so at the end of the run when no later fetched record has
  the same external id. Otherwise the contact table is unchanged and the rejection is one
  more entry of the error list. On the create path an email that fails
  \<^verbatim>\<open>isValidEmail\<close> is rejected with status 400 and the state is unchanged.
\<close>

theorem sync_accepts_any_email:
  assumes idle: "\<not> isRunning (syncStatus s)" and up: "healthCheck srv = Inr True"
    and cs: "getAllCompanies srv = Some (Inr hcs, rq)"
    and ts: "getAllContacts srv = Some (Inr (pre @ h # post), rq')"
    and ne: "cleanString (hct_email h) \<noteq> []"
    and wf: "wfContacts s"
  shows "let before = fold (syncContact e) pre (fold (syncCompany e) hcs (startRun e s));
             d = transformHubspotContact before h;
             after = syncContact e h before
         in \<exists>resp s'. syncCrmData e srv s = Some (Inr resp, s')
              \<and> syncContacts e srv (fold (syncCompany e) hcs (startRun e s))
                  = Some (Inr (), fold (syncContact e) post after)
              \<and> contacts s' = contacts (fold (syncContact e) post after)
              \<and> cn_email d = cleanString (hct_email h) \<and> cn_hubspot_id d = hct_id h
              \<and> after =
                  (case ContactService_upsertContactByHubspotId e d before of
                     (Inr c, t) \<Rightarrow>
                       t\<lparr>syncStatus := (syncStatus t)
                            \<lparr>contactsProcessed := Suc (contactsProcessed (syncStatus t))\<rparr>\<rparr>
                   | (Inl er, t) \<Rightarrow>
                       pushError (''Failed to sync contact '' @ hct_id h @ '': ''
                                  @ formatError er) t)
              \<and> contacts after = contacts (snd (ContactRepository_upsertByHubspotId e d before))
              \<and> (storable e before d
                   \<longleftrightarrow> (\<exists>c t. ContactRepository_upsertByHubspotId e d before = (Inr c, t)))
              \<and> (storable e before d \<longrightarrow>
                   (\<exists>row. ContactRepository_findByHubspotId after (hct_id h) = Some row
                          \<and> ct_email row = cleanString (hct_email h)
                          \<and> (hct_id h \<notin> set (map hct_id post) \<longrightarrow>
                               ContactRepository_findByHubspotId s' (hct_id h) = Some row))
                   \<and> contactsProcessed (syncStatus after)
                       = Suc (contactsProcessed (syncStatus before))
                   \<and> errors (syncStatus after) = errors (syncStatus before))
              \<and> (\<not> storable e before d \<longrightarrow>
                   contacts after = contacts before
                   \<and> contactsProcessed (syncStatus after) = contactsProcessed (syncStatus before)
                   \<and> errors (syncStatus after)
                       = errors (syncStatus before)
                         @ [''Failed to sync contact '' @ hct_id h @ '': Failed to upsert contact''])
              \<and> (\<forall>d'. \<not> isValidEmail (cn_email d') \<longrightarrow>
                   ContactService_createContact e d' s
                     = (Inl (AppError ''Invalid email format'' 400), s))"
proof -
  define mid where "mid = fold (syncCompany e) hcs (startRun e s)"
  define before where "before = fold (syncContact e) pre mid"
  define d where "d = transformHubspotContact before h"
  define after where "after = syncContact e h before"
  define fin where "fin = fold (syncContact e) post after"
  have fin_eq: "fold (syncContact e) (pre @ h # post) mid = fin"
    by (simp add: fin_def after_def before_def)
  have wfh: "wellFormedContact h" using ne by (simp add: wellFormedContact_def)
  have wfmid: "wfContacts mid"
    using wf fold_syncCompany_contacts[of e hcs "startRun e s"] startRun_tables[of e s]
    by (simp add: mid_def wfContacts_def)
  have wfb: "wfContacts before"
    unfolding before_def by (rule fold_syncContact_wfContacts[OF wfmid])
  have wfa: "wfContacts after"
    unfolding after_def by (rule syncContact_wfContacts[OF wfb])
  let ?resp = "\<lparr>message = ''Sync completed successfully'',
                  contactsSynced = contactsProcessed (syncStatus fin),
                  companiesSynced = companiesProcessed (syncStatus fin),
                  syncedAt = now e (clock fin)\<rparr>"
  let ?s' = "fin\<lparr>clock := Suc (clock fin),
                 syncStatus := (syncStatus fin)\<lparr>completedAt := Some (now e (clock fin)),
                                                 isRunning := False\<rparr>\<rparr>"
  have run: "syncCrmData e srv s = Some (Inr ?resp, ?s')"
    using sync_completed[OF idle up cs ts, of e] fin_eq by (simp add: mid_def Let_def)
  have ph: "syncContacts e srv mid = Some (Inr (), fin)"
    using ts fin_eq by (simp add: syncContacts_def)
  have tb: "contacts ?s' = contacts fin" by simp
  have p1: "cn_email d = cleanString (hct_email h)" and hid: "cn_hubspot_id d = hct_id h"
    using transform_contact_email[of before h] by (simp_all add: d_def)
  have p2: "after =
      (case ContactService_upsertContactByHubspotId e d before of
         (Inr c, t) \<Rightarrow>
           t\<lparr>syncStatus := (syncStatus t)
                \<lparr>contactsProcessed := Suc (contactsProcessed (syncStatus t))\<rparr>\<rparr>
       | (Inl er, t) \<Rightarrow>
           pushError (''Failed to sync contact '' @ hct_id h @ '': '' @ formatError er) t)"
    unfolding after_def d_def by (rule syncContact_wellformed[OF wfh])
  obtain r t where upr: "ContactRepository_upsertByHubspotId e d before = (r, t)"
    by fastforce
  have fr: "syncStatus t = syncStatus before" using contact_upsert_frame[OF upr] by simp
  have p3: "contacts after = contacts (snd (ContactRepository_upsertByHubspotId e d before))"
    unfolding p2 ContactService_upsertContactByHubspotId_def upr
    by (cases r) (simp_all add: pushError_def)
  have fk: "foreignKeyOk (companies before) (cn_company_id d)"
      "foreignKeyOk (companies before) (orNull (cn_company_id d))"
    using transform_contact_fk[of before h] by (simp_all add: d_def)
  have p4: "storable e before d
      \<longleftrightarrow> (\<exists>c t. ContactRepository_upsertByHubspotId e d before = (Inr c, t))"
    using contact_upsert_stored[OF _ fk, of e] contact_upsert_accepted[OF wfb, of e d]
    by blast
  have p5: "storable e before d \<longrightarrow>
       (\<exists>row. ContactRepository_findByHubspotId after (hct_id h) = Some row
              \<and> ct_email row = cleanString (hct_email h)
              \<and> (hct_id h \<notin> set (map hct_id post) \<longrightarrow>
                   ContactRepository_findByHubspotId ?s' (hct_id h) = Some row))
       \<and> contactsProcessed (syncStatus after) = Suc (contactsProcessed (syncStatus before))
       \<and> errors (syncStatus after) = errors (syncStatus before)"
  proof
    assume st: "storable e before d"
    from contact_upsert_stored[OF st fk]
    obtain c t' row where up': "ContactRepository_upsertByHubspotId e d before = (Inr (Some c), t')"
      and row: "ContactRepository_findByHubspotId t' (cn_hubspot_id d) = Some row"
        "ct_email row = cn_email d"
      by blast
    from up' upr have rt: "r = Inr (Some c)" "t' = t" by simp_all
    have step: "after = t\<lparr>syncStatus := (syncStatus t)
                   \<lparr>contactsProcessed := Suc (contactsProcessed (syncStatus t))\<rparr>\<rparr>"
      unfolding p2 ContactService_upsertContactByHubspotId_def upr rt by simp
    have found: "ContactRepository_findByHubspotId after (hct_id h) = Some row"
      using row(1) rt hid unfolding step by (simp add: ContactRepository_findByHubspotId_def)
    have kept: "ContactRepository_findByHubspotId ?s' (hct_id h) = Some row"
      if "hct_id h \<notin> set (map hct_id post)"
      using fold_syncContact_keeps_other[OF wfa found that, of e]
      by (simp add: fin_def ContactRepository_findByHubspotId_def)
    show "(\<exists>row. ContactRepository_findByHubspotId after (hct_id h) = Some row
              \<and> ct_email row = cleanString (hct_email h)
              \<and> (hct_id h \<notin> set (map hct_id post) \<longrightarrow>
                   ContactRepository_findByHubspotId ?s' (hct_id h) = Some row))
       \<and> contactsProcessed (syncStatus after) = Suc (contactsProcessed (syncStatus before))
       \<and> errors (syncStatus after) = errors (syncStatus before)"
      using found row(2) p1 kept fr unfolding step by (intro conjI exI[of _ row]) simp_all
  qed
  have p6: "\<not> storable e before d \<longrightarrow>
       contacts after = contacts before
       \<and> contactsProcessed (syncStatus after) = contactsProcessed (syncStatus before)
       \<and> errors (syncStatus after)
           = errors (syncStatus before)
             @ [''Failed to sync contact '' @ hct_id h @ '': Failed to upsert contact'']"
  proof
    assume ns: "\<not> storable e before d"
    with p4 upr obtain er where r: "r = Inl er" by (cases r) auto
    have tbl: "contacts t = contacts before"
      using contact_upsert_rejected[OF upr[unfolded r]] .
    have step: "after =
        pushError (''Failed to sync contact '' @ hct_id h @ '': Failed to upsert contact'') t"
      unfolding p2 ContactService_upsertContactByHubspotId_def upr r by simp
    show "contacts after = contacts before
       \<and> contactsProcessed (syncStatus after) = contactsProcessed (syncStatus before)
       \<and> errors (syncStatus after)
           = errors (syncStatus before)
             @ [''Failed to sync contact '' @ hct_id h @ '': Failed to upsert contact'']"
      unfolding step using fr tbl by (simp add: pushError_def)
  qed
  have p7: "\<forall>d'. \<not> isValidEmail (cn_email d') \<longrightarrow>
          ContactService_createContact e d' s = (Inl (AppError ''Invalid email format'' 400), s)"
    by (simp add: ContactService_createContact_def Let_def)
  have "\<exists>resp s'. syncCrmData e srv s = Some (Inr resp, s')
              \<and> syncContacts e srv mid = Some (Inr (), fin)
              \<and> contacts s' = contacts fin
              \<and> cn_email d = cleanString (hct_email h) \<and> cn_hubspot_id d = hct_id h
              \<and> after =
                  (case ContactService_upsertContactByHubspotId e d before of
                     (Inr c, t) \<Rightarrow>
                       t\<lparr>syncStatus := (syncStatus t)
                            \<lparr>contactsProcessed := Suc (contactsProcessed (syncStatus t))\<rparr>\<rparr>
                   | (Inl er, t) \<Rightarrow>
                       pushError (''Failed to sync contact '' @ hct_id h @ '': ''
                                  @ formatError er) t)
              \<and> contacts after = contacts (snd (ContactRepository_upsertByHubspotId e d before))
              \<and> (storable e before d
                   \<longleftrightarrow> (\<exists>c t. ContactRepository_upsertByHubspotId e d before = (Inr c, t)))
              \<and> (storable e before d \<longrightarrow>
                   (\<exists>row. ContactRepository_findByHubspotId after (hct_id h) = Some row
                          \<and> ct_email row = cleanString (hct_email h)
                          \<and> (hct_id h \<notin> set (map hct_id post) \<longrightarrow>
                               ContactRepository_findByHubspotId s' (hct_id h) = Some row))
                   \<and> contactsProcessed (syncStatus after)
                       = Suc (contactsProcessed (syncStatus before))
                   \<and> errors (syncStatus after) = errors (syncStatus before))
              \<and> (\<not> storable e before d \<longrightarrow>
                   contacts after = contacts before
                   \<and> contactsProcessed (syncStatus after) = contactsProcessed (syncStatus before)
                   \<and> errors (syncStatus after)
                       = errors (syncStatus before)
                         @ [''Failed to sync contact '' @ hct_id h @ '': Failed to upsert contact''])
              \<and> (\<forall>d'. \<not> isValidEmail (cn_email d') \<longrightarrow>
                   ContactService_createContact e d' s
                     = (Inl (AppError ''Invalid email format'' 400), s))"
    apply (rule exI[of _ ?resp])
    apply (rule exI[of _ ?s'])
    apply (intro conjI)
    apply (rule run)
    apply (rule ph)
    apply (rule tb)
    apply (rule p1)
    apply (rule hid)
    apply (rule p2)
    apply (rule p3)
    apply (rule p4)
    apply (rule p5)
    apply (rule p6)
    apply (rule p7)
    done
  then show ?thesis
    unfolding Let_def mid_def before_def d_def after_def fin_def .
qed

text \<open>
  The first of the two contacts with the email \<open>invalid-email\<close>: stored with it by the
  run, and rejected by \<^verbatim>\<open>createContact\<close>.
\<close>

theorem sync_accepts_any_email_witness:
  "\<not> isRunning (syncStatus emptySys) \<and> healthCheck twinServer = Inr True
   \<and> getAllCompanies twinServer = Some (Inr [], [companiesParams])
   \<and> getAllContacts twinServer = Some (Inr ([] @ zed201 # [zed202]), [contactsParams])
   \<and> cleanString (hct_email zed201) = ''invalid-email'' \<and> \<not> isValidEmail ''invalid-email''
   \<and> wfContacts emptySys
   \<and> storable sampleEnv (startRun sampleEnv emptySys)
        (transformHubspotContact (startRun sampleEnv emptySys) zed201)
   \<and> (\<exists>resp s' row. syncCrmData sampleEnv twinServer emptySys = Some (Inr resp, s')
         \<and> ContactRepository_findByHubspotId s' ''201'' = Some row
         \<and> ct_email row = ''invalid-email'')
   \<and> ContactService_createContact sampleEnv
        \<lparr>cn_hubspot_id = ''201'', cn_firstname = Some ''Zed'', cn_lastname = None,
         cn_email = ''invalid-email'', cn_company_id = None\<rparr> emptySys
       = (Inl (AppError ''Invalid email format'' 400), emptySys)"
proof -
  have idle: "\<not> isRunning (syncStatus emptySys)"
    by (simp add: emptySys_def idleStatus_def)
  have up: "healthCheck twinServer = Inr True"
    by code_simp
  have cs: "getAllCompanies twinServer = Some (Inr [], [companiesParams])"
    by code_simp
  have ts: "getAllContacts twinServer = Some (Inr ([] @ zed201 # [zed202]), [contactsParams])"
    by code_simp
  have m: "cleanString (hct_email zed201) = ''invalid-email''"
    by code_simp
  then have ne: "cleanString (hct_email zed201) \<noteq> []" by simp
  have inv: "\<not> isValidEmail ''invalid-email''"
    by code_simp
  have wf: "wfContacts emptySys"
    by (simp add: wfContacts_def emptySys_def)
  have st: "storable sampleEnv (startRun sampleEnv emptySys)
        (transformHubspotContact (startRun sampleEnv emptySys) zed201)"
    by code_simp
  have later: "hct_id zed201 \<notin> set (map hct_id [zed202])" and z: "hct_id zed201 = ''201''"
    by (simp_all add: zed201_def zed202_def)
  note inst = sync_accepts_any_email[OF idle up cs ts ne wf, of sampleEnv, unfolded Let_def fold_simps]
  then obtain resp s' where
    r: "syncCrmData sampleEnv twinServer emptySys = Some (Inr resp, s')"
    and p: "storable sampleEnv (startRun sampleEnv emptySys)
              (transformHubspotContact (startRun sampleEnv emptySys) zed201) \<longrightarrow>
            (\<exists>row. ContactRepository_findByHubspotId
                     (syncContact sampleEnv zed201 (startRun sampleEnv emptySys)) (hct_id zed201)
                     = Some row
                \<and> ct_email row = cleanString (hct_email zed201)
                \<and> (hct_id zed201 \<notin> set (map hct_id [zed202]) \<longrightarrow>
                     ContactRepository_findByHubspotId s' (hct_id zed201) = Some row))"
    and c: "\<forall>d'. \<not> isValidEmail (cn_email d') \<longrightarrow>
             ContactService_createContact sampleEnv d' emptySys
               = (Inl (AppError ''Invalid email format'' 400), emptySys)"
    by blast
  from p st later obtain row where
    row: "ContactRepository_findByHubspotId s' (hct_id zed201) = Some row"
      "ct_email row = cleanString (hct_email zed201)"
    by blast
  have a: "\<exists>resp s' row. syncCrmData sampleEnv twinServer emptySys = Some (Inr resp, s')
         \<and> ContactRepository_findByHubspotId s' ''201'' = Some row
         \<and> ct_email row = ''invalid-email''"
    using r row unfolding m z by blast
  from c inv
  have b: "ContactService_createContact sampleEnv
        \<lparr>cn_hubspot_id = ''201'', cn_firstname = Some ''Zed'', cn_lastname = None,
         cn_email = ''invalid-email'', cn_company_id = None\<rparr> emptySys
       = (Inl (AppError ''Invalid email format'' 400), emptySys)"
    by simp
  from idle up cs ts m inv wf st a b show ?thesis by blast
qed

section \<open>Pagination\<close>

lemma pageLoop_last:
  assumes "lastPage (responseAt get base n)"
  shows "pageLoop get base n (cursorAt get base n) acc reqs =
         Some (Inr (acc @ resultsOf (responseAt get base n)), reqs @ [requestAt get base n])"
  using assms
  by (subst pageLoop.simps)
     (auto simp: lastPage_def responseAt_def requestAt_def resultsOf_def split: sum.splits)

lemma pageLoop_next:
  assumes "hasNext (responseAt get base n)"
  shows "pageLoop get base n (cursorAt get base n) acc reqs =
         pageLoop get base (Suc n) (cursorAt get base (Suc n))
           (acc @ resultsOf (responseAt get base n)) (reqs @ [requestAt get base n])"
  using assms
  by (subst pageLoop.simps)
     (auto simp: hasNext_def responseAt_def requestAt_def resultsOf_def split: sum.splits)

lemma pageLoop_pages:
  assumes "\<forall>i. n \<le> i \<and> i < k \<longrightarrow> hasNext (responseAt get base i)"
    and "lastPage (responseAt get base k)" and "n \<le> k"
  shows "pageLoop get base n (cursorAt get base n) acc reqs =
         Some (Inr (acc @ concat (map (\<lambda>i. resultsOf (responseAt get base i)) [n..<Suc k])),
               reqs @ map (requestAt get base) [n..<Suc k])"
  using assms
proof (induction "k - n" arbitrary: n acc reqs)
  case 0
  then have "n = k" by simp
  with 0 show ?case by (simp add: pageLoop_last)
next
  case (Suc d)
  then have lt: "n < k" by simp
  with Suc.prems have nx: "hasNext (responseAt get base n)" by simp
  have ih: "pageLoop get base (Suc n) (cursorAt get base (Suc n))
           (acc @ resultsOf (responseAt get base n)) (reqs @ [requestAt get base n]) =
         Some (Inr ((acc @ resultsOf (responseAt get base n))
                 @ concat (map (\<lambda>i. resultsOf (responseAt get base i)) [Suc n..<Suc k])),
               (reqs @ [requestAt get base n]) @ map (requestAt get base) [Suc n..<Suc k])"
    using Suc.hyps(2) Suc.prems lt by (intro Suc.hyps(1)) auto
  have up: "[n..<Suc k] = n # [Suc n..<Suc k]" using lt by (simp add: upt_conv_Cons)
  show ?case unfolding pageLoop_next[OF nx] ih up by simp
qed

lemma pageLoop_forever_aux:
  assumes ret: "pageLoop get base n after acc reqs = Some y"
  shows "after = cursorAt get base n \<longrightarrow> (\<forall>i. hasNext (responseAt get base i)) \<longrightarrow> False"
proof (rule pageLoop.raw_induct[where P="\<lambda>get base n after acc reqs y.
         after = cursorAt get base n \<longrightarrow> (\<forall>i. hasNext (responseAt get base i)) \<longrightarrow> False",
       OF _ ret])
  fix loop :: "(nat \<Rightarrow> params \<Rightarrow> err + 'a HubSpotBaseResponse) \<Rightarrow> params \<Rightarrow> nat \<Rightarrow> string option
     \<Rightarrow> 'a list \<Rightarrow> params list \<Rightarrow> ((err + 'a list) \<times> params list) option"
  fix get base n after acc reqs y
  assume IH: "\<And>get base n after acc reqs y. loop get base n after acc reqs = Some y \<Longrightarrow>
      after = cursorAt get base n \<longrightarrow> (\<forall>i. hasNext (responseAt get base i)) \<longrightarrow> False"
    and step: "(case get n (pageParams base after) of
        Inl er \<Rightarrow> Some (Inl er, reqs @ [pageParams base after])
      | Inr response \<Rightarrow>
          (case paging_next response of
             None \<Rightarrow> Some (Inr (acc @ results response), reqs @ [pageParams base after])
           | Some a \<Rightarrow>
               loop get base (Suc n) (Some a) (acc @ results response)
                 (reqs @ [pageParams base after]))) = Some y"
  show "after = cursorAt get base n \<longrightarrow> (\<forall>i. hasNext (responseAt get base i)) \<longrightarrow> False"
  proof (intro impI)
    assume cur: "after = cursorAt get base n" and all: "\<forall>i. hasNext (responseAt get base i)"
    from all have "hasNext (responseAt get base n)" by blast
    then obtain response a where
      r: "get n (pageParams base after) = Inr response" and nx: "paging_next response = Some a"
      unfolding cur
      by (auto simp: hasNext_def responseAt_def requestAt_def split: sum.splits)
    from step r nx have "loop get base (Suc n) (Some a) (acc @ results response)
        (reqs @ [pageParams base after]) = Some y" by simp
    moreover have "Some a = cursorAt get base (Suc n)" using r nx cur by simp
    ultimately show False using IH all by blast
  qed
qed

lemma pageLoop_forever:
  "\<forall>i. hasNext (responseAt get base i) \<Longrightarrow> pageLoop get base 0 None [] [] = None"
proof (rule ccontr)
  assume all: "\<forall>i. hasNext (responseAt get base i)"
    and "pageLoop get base 0 None [] [] \<noteq> None"
  then obtain y where "pageLoop get base 0 None [] [] = Some y" by blast
  from pageLoop_forever_aux[OF this] all show False by simp
qed

lemma pageLoop_error:
  assumes "responseAt get base n = Inl er"
  shows "pageLoop get base n (cursorAt get base n) acc reqs =
         Some (Inl er, reqs @ [requestAt get base n])"
  using assms
  by (subst pageLoop.simps) (auto simp: responseAt_def requestAt_def split: sum.splits)

lemma pageLoop_fails:
  assumes "\<forall>i. n \<le> i \<and> i < k \<longrightarrow> hasNext (responseAt get base i)"
    and "responseAt get base k = Inl er" and "n \<le> k"
  shows "pageLoop get base n (cursorAt get base n) acc reqs =
         Some (Inl er, reqs @ map (requestAt get base) [n..<Suc k])"
  using assms
proof (induction "k - n" arbitrary: n acc reqs)
  case 0
  then have "n = k" by simp
  with 0 show ?case by (simp add: pageLoop_error)
next
  case (Suc d)
  then have lt: "n < k" by simp
  with Suc.prems have nx: "hasNext (responseAt get base n)" by simp
  have ih: "pageLoop get base (Suc n) (cursorAt get base (Suc n))
           (acc @ resultsOf (responseAt get base n)) (reqs @ [requestAt get base n]) =
         Some (Inl er, (reqs @ [requestAt get base n]) @ map (requestAt get base) [Suc n..<Suc k])"
    using Suc.hyps(2) Suc.prems lt by (intro Suc.hyps(1)) auto
  have up: "[n..<Suc k] = n # [Suc n..<Suc k]" using lt by (simp add: upt_conv_Cons)
  show ?case unfolding pageLoop_next[OF nx] ih up by simp
qed

lemma first_without_next:
  assumes "\<not> (\<forall>i. hasNext (responseAt get base i))"
  shows "\<exists>k. (\<forall>i<k. hasNext (responseAt get base i)) \<and> \<not> hasNext (responseAt get base k)"
proof -
  from assms obtain j where j: "\<not> hasNext (responseAt get base j)" by blast
  define k where "k = (LEAST j. \<not> hasNext (responseAt get base j))"
  have "\<not> hasNext (responseAt get base k)" unfolding k_def using j by (rule LeastI)
  moreover have "\<forall>i<k. hasNext (responseAt get base i)"
    unfolding k_def using not_less_Least by blast
  ultimately show ?thesis by blast
qed

lemma pageLoop_returns_iff:
  "pageLoop get base 0 None [] [] = Some (Inr recs, reqs)
   \<longleftrightarrow> (\<exists>k. (\<forall>i<k. hasNext (responseAt get base i)) \<and> lastPage (responseAt get base k)
            \<and> recs = concat (map (\<lambda>i. resultsOf (responseAt get base i)) [0..<Suc k])
            \<and> reqs = map (requestAt get base) [0..<Suc k])"
proof
  assume ret: "pageLoop get base 0 None [] [] = Some (Inr recs, reqs)"
  then have "\<not> (\<forall>i. hasNext (responseAt get base i))"
    using pageLoop_forever[of get base] by auto
  from first_without_next[OF this] obtain k where
    before: "\<forall>i<k. hasNext (responseAt get base i)" and k: "\<not> hasNext (responseAt get base k)"
    by blast
  show "\<exists>k. (\<forall>i<k. hasNext (responseAt get base i)) \<and> lastPage (responseAt get base k)
            \<and> recs = concat (map (\<lambda>i. resultsOf (responseAt get base i)) [0..<Suc k])
            \<and> reqs = map (requestAt get base) [0..<Suc k]"
  proof (cases "responseAt get base k")
    case (Inl er)
    have "pageLoop get base 0 (cursorAt get base 0) [] [] =
         Some (Inl er, [] @ map (requestAt get base) [0..<Suc k])"
      using before by (intro pageLoop_fails[OF _ Inl]) auto
    with ret show ?thesis by simp
  next
    case (Inr response)
    with k have lp: "lastPage (responseAt get base k)"
      by (simp add: hasNext_def lastPage_def)
    have "pageLoop get base 0 (cursorAt get base 0) [] [] =
         Some (Inr ([] @ concat (map (\<lambda>i. resultsOf (responseAt get base i)) [0..<Suc k])),
               [] @ map (requestAt get base) [0..<Suc k])"
      using before by (intro pageLoop_pages[OF _ lp]) auto
    with ret before lp show ?thesis by auto
  qed
next
  assume "\<exists>k. (\<forall>i<k. hasNext (responseAt get base i)) \<and> lastPage (responseAt get base k)
            \<and> recs = concat (map (\<lambda>i. resultsOf (responseAt get base i)) [0..<Suc k])
            \<and> reqs = map (requestAt get base) [0..<Suc k]"
  then obtain k where before: "\<forall>i<k. hasNext (responseAt get base i)"
    and lp: "lastPage (responseAt get base k)"
    and recs: "recs = concat (map (\<lambda>i. resultsOf (responseAt get base i)) [0..<Suc k])"
    and reqs: "reqs = map (requestAt get base) [0..<Suc k]"
    by blast
  have "pageLoop get base 0 (cursorAt get base 0) [] [] =
         Some (Inr ([] @ concat (map (\<lambda>i. resultsOf (responseAt get base i)) [0..<Suc k])),
               [] @ map (requestAt get base) [0..<Suc k])"
    using before by (intro pageLoop_pages[OF _ lp]) auto
  then show "pageLoop get base 0 None [] [] = Some (Inr recs, reqs)"
    unfolding recs reqs by simp
qed

lemma pageLoop_two_pages:
  assumes p1: "get 0 base = Inr \<lparr>results = P1, paging_next = Some c1\<rparr>"
    and p2: "get 1 (pageParams base (Some c1)) = Inr \<lparr>results = P2, paging_next = None\<rparr>"
  shows "pageLoop get base 0 None [] [] = Some (Inr (P1 @ P2), [base, pageParams base (Some c1)])"
proof -
  have first: "pageParams base None = base" by (simp add: pageParams_def orEmpty_def)
  show ?thesis
    using p1 p2 first
    by (subst pageLoop.simps, simp, subst pageLoop.simps, simp)
qed

text \<open>
  C8, as stated, fails: the first page carries the empty string as its cursor and is
  followed by a page without cursor. The fetch issues two requests and returns both pages,
  but the second request has the parameters of the first: it passes no \<open>after\<close>.
\<close>

theorem empty_cursor_not_sent:
  "contactsEndpoint emptyCursorServer 0 contactsParams
     = Inr \<lparr>results = [ann101], paging_next = Some []\<rparr>
   \<and> (\<forall>p. contactsEndpoint emptyCursorServer 1 p = Inr \<lparr>results = [eve104], paging_next = None\<rparr>)
   \<and> getAllContacts emptyCursorServer
       = Some (Inr [ann101, eve104], [contactsParams, contactsParams])
   \<and> map_of contactsParams ''after'' = None"
proof -
  have "getAllContacts emptyCursorServer
       = Some (Inr [ann101, eve104], [contactsParams, contactsParams])"
    by code_simp
  then show ?thesis
    by (simp add: emptyCursorServer_def contactsParams_def)
qed

text \<open>
  C8, amended. \<^term>\<open>pageLoop\<close> is the loop of \<^verbatim>\<open>getAllContacts\<close> and of
  \<^verbatim>\<open>getAllCompanies\<close>. When the first answer is page \<open>P1\<close> with cursor \<open>c1\<close> and the
  answer to the second request is page \<open>P2\<close> without cursor, the fetch issues exactly two
  requests and returns \<open>P1 @ P2\<close>; the second request passes \<open>after = c1\<close> when \<open>c1\<close> is
  not empty and no \<open>after\<close> when it is. In general the fetch returns a list of records
  exactly when some answer is a page without \<open>paging.next\<close> and all answers before it are
  pages with one: it then returns the records of these pages in order and has issued
  exactly these requests. When every answer carries a cursor the fetch never returns.
\<close>

theorem pagination_stops_without_cursor:
  "(get 0 base = Inr \<lparr>results = P1, paging_next = Some c1\<rparr>
      \<and> get 1 (pageParams base (Some c1)) = Inr \<lparr>results = P2, paging_next = None\<rparr>
     \<longrightarrow> pageLoop get base 0 None [] [] = Some (Inr (P1 @ P2), [base, pageParams base (Some c1)])
        \<and> pageParams base (Some c1) = (if c1 = [] then base else base @ [(''after'', c1)]))
   \<and> (pageLoop get base 0 None [] [] = Some (Inr recs, reqs)
        \<longleftrightarrow> (\<exists>k. (\<forall>i<k. hasNext (responseAt get base i)) \<and> lastPage (responseAt get base k)
                \<and> recs = concat (map (\<lambda>i. resultsOf (responseAt get base i)) [0..<Suc k])
                \<and> reqs = map (requestAt get base) [0..<Suc k]))
   \<and> ((\<forall>i. hasNext (responseAt get base i)) \<longrightarrow> pageLoop get base 0 None [] [] = None)"
proof -
  have a: "get 0 base = Inr \<lparr>results = P1, paging_next = Some c1\<rparr>
      \<and> get 1 (pageParams base (Some c1)) = Inr \<lparr>results = P2, paging_next = None\<rparr>
     \<longrightarrow> pageLoop get base 0 None [] [] = Some (Inr (P1 @ P2), [base, pageParams base (Some c1)])
        \<and> pageParams base (Some c1) = (if c1 = [] then base else base @ [(''after'', c1)])"
    using pageLoop_two_pages[of get base P1 c1 P2]
    by (simp add: pageParams_def orEmpty_def)
  have c: "(\<forall>i. hasNext (responseAt get base i)) \<longrightarrow> pageLoop get base 0 None [] [] = None"
    using pageLoop_forever[of get base] by blast
  from a pageLoop_returns_iff[of get base recs reqs] c show ?thesis by blast
qed

theorem pagination_stops_without_cursor_witness:
  "contactsEndpoint cursorServer 0 contactsParams
     = Inr \<lparr>results = [ann101, bob102], paging_next = Some ''c1''\<rparr>
   \<and> contactsEndpoint cursorServer 1 (pageParams contactsParams (Some ''c1''))
     = Inr \<lparr>results = [eve104], paging_next = None\<rparr>
   \<and> getAllContacts cursorServer
       = Some (Inr ([ann101, bob102] @ [eve104]),
               [contactsParams, contactsParams @ [(''after'', ''c1'')]])
   \<and> (\<forall>i. hasNext (responseAt (contactsEndpoint endlessServer) contactsParams i))
   \<and> getAllContacts endlessServer = None"
proof -
  have p1: "contactsEndpoint cursorServer 0 contactsParams
     = Inr \<lparr>results = [ann101, bob102], paging_next = Some ''c1''\<rparr>"
    by (simp add: cursorServer_def contactsParams_def)
  have p2: "contactsEndpoint cursorServer 1 (pageParams contactsParams (Some ''c1''))
     = Inr \<lparr>results = [eve104], paging_next = None\<rparr>"
    by (simp add: cursorServer_def contactsParams_def pageParams_def orEmpty_def)
  have more: "\<forall>i. hasNext (responseAt (contactsEndpoint endlessServer) contactsParams i)"
    by (simp add: hasNext_def responseAt_def endlessServer_def)
  from pagination_stops_without_cursor[of "contactsEndpoint cursorServer" contactsParams
      "[ann101, bob102]" "''c1''" "[eve104]"] p1 p2
  have a: "getAllContacts cursorServer
       = Some (Inr ([ann101, bob102] @ [eve104]),
               [contactsParams, contactsParams @ [(''after'', ''c1'')]])"
    unfolding getAllContacts_def by simp
  from pagination_stops_without_cursor[of "contactsEndpoint endlessServer" contactsParams] more
  have b: "getAllContacts endlessServer = None"
    unfolding getAllContacts_def by blast
  from p1 p2 a more b show ?thesis by blast
qed

end
